theory Spec2Isabelle
  imports Complex_Main "HOL-Library.Char_ord" "HOL-Library.List_Lexorder"
begin

section \<open>Go strings\<close>

text \<open>
  A Go string is a sequence of bytes, and so is a HOL \<open>string\<close>. \<open>len\<close> counts bytes,
  \<open>s[a:b]\<close> is \<open>take\<close>/\<open>drop\<close>, and \<open><\<close> on strings compares bytes
  lexicographically (the order of \<open>Char_ord\<close> lifted by \<open>List_Lexorder\<close>).
\<close>

definition HasPrefix :: "string \<Rightarrow> string \<Rightarrow> bool" where
  "HasPrefix s p = (take (length p) s = p)"

text \<open>\<open>strings.Index\<close>: the index of the first occurrence of \<open>sub\<close>, or \<open>-1\<close>.\<close>

fun Index :: "string \<Rightarrow> string \<Rightarrow> int" where
  "Index [] sub = (if sub = [] then 0 else - 1)"
| "Index (c # cs) sub =
     (if HasPrefix (c # cs) sub then 0
      else (let r = Index cs sub in if r < 0 then - 1 else r + 1))"

text \<open>
  \<open>strings.TrimSpace\<close> removes leading and trailing Unicode white space. On a byte
  string that is: the six ASCII space bytes, and the UTF-8 encodings of the other
  code points with the White_Space property.
\<close>

definition asciiSpace :: "char \<Rightarrow> bool" where
  "asciiSpace c = (c \<in> set [CHR 0x09, CHR 0x0A, CHR 0x0B, CHR 0x0C, CHR 0x0D, CHR 0x20])"

definition spaceRunes :: "string list" where
  "spaceRunes =
     [[CHR 0xC2, CHR 0x85], [CHR 0xC2, CHR 0xA0], [CHR 0xE1, CHR 0x9A, CHR 0x80],
      [CHR 0xE2, CHR 0x80, CHR 0x80], [CHR 0xE2, CHR 0x80, CHR 0x81],
      [CHR 0xE2, CHR 0x80, CHR 0x82], [CHR 0xE2, CHR 0x80, CHR 0x83],
      [CHR 0xE2, CHR 0x80, CHR 0x84], [CHR 0xE2, CHR 0x80, CHR 0x85],
      [CHR 0xE2, CHR 0x80, CHR 0x86], [CHR 0xE2, CHR 0x80, CHR 0x87],
      [CHR 0xE2, CHR 0x80, CHR 0x88], [CHR 0xE2, CHR 0x80, CHR 0x89],
      [CHR 0xE2, CHR 0x80, CHR 0x8A], [CHR 0xE2, CHR 0x80, CHR 0xA8],
      [CHR 0xE2, CHR 0x80, CHR 0xA9], [CHR 0xE2, CHR 0x80, CHR 0xAF],
      [CHR 0xE2, CHR 0x81, CHR 0x9F], [CHR 0xE3, CHR 0x80, CHR 0x80]]"

text \<open>The number of bytes of the white-space rune \<open>s\<close> starts with, \<open>0\<close> if none.\<close>

definition spaceLen :: "string \<Rightarrow> nat" where
  "spaceLen s =
     (case s of [] \<Rightarrow> 0
      | c # cs \<Rightarrow> if asciiSpace c then 1
          else (case filter (HasPrefix s) spaceRunes of [] \<Rightarrow> 0 | r # _ \<Rightarrow> length r))"

function trimLeft :: "string \<Rightarrow> string" where
  "trimLeft s = (if spaceLen s = 0 then s else trimLeft (drop (spaceLen s) s))"
  by pat_completeness auto
termination
proof (relation "measure length")
  fix s :: string
  assume "spaceLen s \<noteq> 0"
  then have "s \<noteq> []" by (auto simp: spaceLen_def)
  with \<open>spaceLen s \<noteq> 0\<close> show "(drop (spaceLen s) s, s) \<in> measure length" by simp
qed simp

text \<open>The same from the end: the white-space rune \<open>s\<close> ends with.\<close>

definition spaceLenEnd :: "string \<Rightarrow> nat" where
  "spaceLenEnd s =
     (case rev s of [] \<Rightarrow> 0
      | c # cs \<Rightarrow> if asciiSpace c then 1
          else (case filter (\<lambda>r. HasPrefix (rev s) (rev r)) spaceRunes of
                  [] \<Rightarrow> 0 | r # _ \<Rightarrow> length r))"

function trimRight :: "string \<Rightarrow> string" where
  "trimRight s =
     (if spaceLenEnd s = 0 then s else trimRight (take (length s - spaceLenEnd s) s))"
  by pat_completeness auto
termination
proof (relation "measure length")
  fix s :: string
  assume "spaceLenEnd s \<noteq> 0"
  then have "s \<noteq> []" by (auto simp: spaceLenEnd_def)
  with \<open>spaceLenEnd s \<noteq> 0\<close>
  show "(take (length s - spaceLenEnd s) s, s) \<in> measure length" by simp
qed simp

declare trimLeft.simps [simp del] trimRight.simps [simp del]

definition TrimSpace :: "string \<Rightarrow> string" where
  "TrimSpace s = trimRight (trimLeft s)"

text \<open>
  \<open>strings.Split\<close> cuts \<open>s\<close> at every occurrence of \<open>sep\<close>, left to right. The code
  only calls it with the separators \<open>&&\<close> and \<open>,\<close>; for the empty separator Go cuts
  after every UTF-8 sequence, which is written here for single bytes.
\<close>

function Split :: "string \<Rightarrow> string \<Rightarrow> string list" where
  "Split s sep =
     (if sep = [] then map (\<lambda>c. [c]) s
      else if Index s sep < 0 then [s]
      else take (nat (Index s sep)) s # Split (drop (nat (Index s sep) + length sep) s) sep)"
  by pat_completeness auto
termination
proof (relation "measure (\<lambda>(s, sep). length s)")
  fix s sep :: string
  assume "sep \<noteq> []" and "\<not> Index s sep < 0"
  then have "s \<noteq> []" by (cases s) auto
  with \<open>sep \<noteq> []\<close>
  show "((drop (nat (Index s sep) + length sep) s, sep), (s, sep)) \<in> measure (\<lambda>(s, sep). length s)"
    by simp
qed simp

declare Split.simps [simp del]

text \<open>
  \<open>strings.ToLower\<close>, on ASCII letters. (Go also folds the letters beyond ASCII; a label
  with such letters is outside what this definition describes.)
\<close>

definition lowerChar :: "char \<Rightarrow> char" where
  "lowerChar c =
     (if CHR ''A'' \<le> c \<and> c \<le> CHR ''Z'' then char_of (of_char c + (32::nat)) else c)"

definition ToLower :: "string \<Rightarrow> string" where
  "ToLower s = map lowerChar s"

text \<open>\<open>strconv.Itoa\<close> / the verb \<open>%d\<close>: decimal digits, with a minus sign.\<close>

definition digitChar :: "nat \<Rightarrow> char" where
  "digitChar d = char_of (48 + d)"

fun natDigits :: "nat \<Rightarrow> string" where
  "natDigits n = (if n < 10 then [digitChar n] else natDigits (n div 10) @ [digitChar (n mod 10)])"

declare natDigits.simps [simp del]

definition Itoa :: "int \<Rightarrow> string" where
  "Itoa i = (if i < 0 then CHR ''-'' # natDigits (nat (- i)) else natDigits (nat i))"

text \<open>\<open>strings.TrimPrefix\<close>.\<close>

definition TrimPrefix :: "string \<Rightarrow> string \<Rightarrow> string" where
  "TrimPrefix s p = (if HasPrefix s p then drop (length p) s else s)"

section \<open>Sorting in place\<close>

text \<open>
  The insertion sort that \<open>sortBySpecificity\<close> spells out, over any \<open>less\<close>:
  \<^verbatim>\<open>for i := 1; i < len(xs); i++ {
    for j := i; j > 0 && less(xs[j], xs[j-1]); j-- { xs[j], xs[j-1] = xs[j-1], xs[j] } }\<close>
  \<open>swapDown\<close> is the inner loop from index \<open>j\<close>, \<open>insertionLoop\<close> the outer loop from
  index \<open>i\<close>.
\<close>

function swapDown :: "('a \<Rightarrow> 'a \<Rightarrow> bool) \<Rightarrow> 'a list \<Rightarrow> nat \<Rightarrow> 'a list" where
  "swapDown lt xs j =
     (if 0 < j \<and> j < length xs \<and> lt (xs ! j) (xs ! (j - 1))
      then swapDown lt (xs[j := xs ! (j - 1), j - 1 := xs ! j]) (j - 1)
      else xs)"
  by pat_completeness auto
termination
  by (relation "measure (\<lambda>(lt, xs, j). j)") auto

declare swapDown.simps [simp del]

function insertionLoop :: "('a \<Rightarrow> 'a \<Rightarrow> bool) \<Rightarrow> 'a list \<Rightarrow> nat \<Rightarrow> 'a list" where
  "insertionLoop lt xs i =
     (if i < length xs then insertionLoop lt (swapDown lt xs i) (Suc i) else xs)"
  by pat_completeness auto

lemma length_swapDown [simp]: "length (swapDown lt xs j) = length xs"
proof (induction lt xs j rule: swapDown.induct)
  case (1 lt xs j)
  then show ?case by (subst swapDown.simps) simp
qed

termination insertionLoop
  by (relation "measure (\<lambda>(lt, xs, i). length xs - i)") auto

declare insertionLoop.simps [simp del]

text \<open>
  \<open>sort.Slice(xs, lt)\<close>. The Go library runs this insertion sort on slices of up to 12
  elements; on longer ones it runs a quicksort that may order elements equal under
  \<open>less\<close> differently. What the results below use holds for both: the slice is permuted,
  and no element is \<open>less\<close> than the one that ends up first.
\<close>

definition sortSlice :: "('a \<Rightarrow> 'a \<Rightarrow> bool) \<Rightarrow> 'a list \<Rightarrow> 'a list" where
  "sortSlice lt xs = insertionLoop lt xs 1"

text \<open>
  For the proofs: inserting \<open>x\<close> into a prefix held in reverse, which is what one run of
  the inner loop does, and the order properties of \<open>less\<close> under which the result is
  sorted.
\<close>

fun insRev :: "('a \<Rightarrow> 'a \<Rightarrow> bool) \<Rightarrow> 'a \<Rightarrow> 'a list \<Rightarrow> 'a list" where
  "insRev lt x [] = [x]"
| "insRev lt x (y # ys) = (if lt x y then y # insRev lt x ys else x # y # ys)"

lemma swapDown_insRev:
  "j < length xs \<Longrightarrow>
   swapDown lt xs j = rev (insRev lt (xs ! j) (rev (take j xs))) @ drop (Suc j) xs"
proof (induction lt xs j rule: swapDown.induct)
  case (1 lt xs j)
  show ?case
  proof (cases "0 < j \<and> lt (xs ! j) (xs ! (j - 1))")
    case False
    then have "swapDown lt xs j = xs" using "1.prems" by (subst swapDown.simps) auto
    moreover have "rev (insRev lt (xs ! j) (rev (take j xs))) @ drop (Suc j) xs = xs"
    proof (cases j)
      case 0
      then show ?thesis using "1.prems" by (cases xs) auto
    next
      case (Suc k)
      then have "take j xs = take k xs @ [xs ! k]" using "1.prems" by (simp add: take_Suc_conv_app_nth)
      moreover have "\<not> lt (xs ! j) (xs ! k)" using False Suc by simp
      ultimately show ?thesis using "1.prems" Suc
        by (simp add: Cons_nth_drop_Suc)
    qed
    ultimately show ?thesis by simp
  next
    case True
    then obtain k where k: "j = Suc k" by (cases j) auto
    let ?xs' = "xs[j := xs ! (j - 1), j - 1 := xs ! j]"
    have step: "swapDown lt xs j = swapDown lt ?xs' (j - 1)"
      using True "1.prems" by (subst swapDown.simps) auto
    have len: "j - 1 < length ?xs'" using "1.prems" by simp
    have IH: "swapDown lt ?xs' (j - 1) =
        rev (insRev lt (?xs' ! (j - 1)) (rev (take (j - 1) ?xs'))) @ drop (Suc (j - 1)) ?xs'"
      using "1.IH" True "1.prems" len by blast
    have a: "?xs' ! (j - 1) = xs ! j" using "1.prems" k by simp
    have b: "take (j - 1) ?xs' = take k xs" using k by simp
    have c: "drop (Suc (j - 1)) ?xs' = xs ! k # drop (Suc j) xs"
      using k "1.prems" by (simp add: drop_update_swap Cons_nth_drop_Suc[symmetric] )
    have d: "take j xs = take k xs @ [xs ! k]" using k "1.prems" by (simp add: take_Suc_conv_app_nth)
    show ?thesis using True k unfolding step IH a b c d by simp
  qed
qed


lemma insertionLoop_insRev:
  "i \<le> length xs \<Longrightarrow>
   insertionLoop lt xs i = rev (foldl (\<lambda>acc x. insRev lt x acc) (rev (take i xs)) (drop i xs))"
proof (induction lt xs i rule: insertionLoop.induct)
  case (1 lt xs i)
  show ?case
  proof (cases "i < length xs")
    case False
    then show ?thesis using "1.prems" by (subst insertionLoop.simps) simp
  next
    case True
    let ?ys = "swapDown lt xs i"
    have ys: "?ys = rev (insRev lt (xs ! i) (rev (take i xs))) @ drop (Suc i) xs"
      using True by (rule swapDown_insRev)
    have len: "length (insRev lt x zs) = Suc (length zs)" for x and zs :: "'a list"
      by (induction zs) auto
    have tk: "take (Suc i) ?ys = rev (insRev lt (xs ! i) (rev (take i xs)))"
      using True by (simp add: ys len)
    have dr: "drop (Suc i) ?ys = drop (Suc i) xs"
      using True by (simp add: ys len)
    have "insertionLoop lt xs i = insertionLoop lt ?ys (Suc i)"
      using True by (subst insertionLoop.simps) simp
    also have "\<dots> = rev (foldl (\<lambda>acc x. insRev lt x acc) (rev (take (Suc i) ?ys)) (drop (Suc i) ?ys))"
      using "1.IH" True by simp
    also have "\<dots> = rev (foldl (\<lambda>acc x. insRev lt x acc) (rev (take i xs)) (drop i xs))"
      using True unfolding tk dr by (simp add: Cons_nth_drop_Suc[symmetric])
    finally show ?thesis .
  qed
qed

lemma sortSlice_insRev: "sortSlice lt xs = rev (foldl (\<lambda>acc x. insRev lt x acc) [] xs)"
proof (cases xs)
  case Nil
  then show ?thesis by (simp add: sortSlice_def insertionLoop.simps)
next
  case (Cons x xs')
  then show ?thesis using insertionLoop_insRev[where i = 1 and xs = xs and lt = lt] by (simp add: sortSlice_def)
qed

lemma set_insRev: "set (insRev lt x ys) = insert x (set ys)"
  by (induction ys) auto

lemma set_foldl_insRev:
  "set (foldl (\<lambda>acc x. insRev lt x acc) acc xs) = set acc \<union> set xs"
  by (induction xs arbitrary: acc) (auto simp: set_insRev)

lemma set_sortSlice: "set (sortSlice lt xs) = set xs"
  by (simp add: sortSlice_insRev set_foldl_insRev)

definition strictWeak :: "('a \<Rightarrow> 'a \<Rightarrow> bool) \<Rightarrow> bool" where
  "strictWeak lt = ((\<forall>a b. lt a b \<longrightarrow> \<not> lt b a) \<and> (\<forall>a b c. \<not> lt b a \<longrightarrow> \<not> lt c b \<longrightarrow> \<not> lt c a))"

lemma sorted_insRev:
  assumes sw: "strictWeak lt" and "sorted_wrt (\<lambda>a b. \<not> lt a b) ys"
  shows "sorted_wrt (\<lambda>a b. \<not> lt a b) (insRev lt x ys)"
  using assms(2)
proof (induction ys)
  case Nil
  then show ?case by simp
next
  case (Cons y ys)
  from Cons.prems have tl: "sorted_wrt (\<lambda>a b. \<not> lt a b) ys"
    and hd: "\<forall>z \<in> set ys. \<not> lt y z" by simp_all
  show ?case
  proof (cases "lt x y")
    case True
    from sw True have "\<not> lt y x" unfolding strictWeak_def by blast
    with hd have "\<forall>z \<in> set (insRev lt x ys). \<not> lt y z" by (simp add: set_insRev)
    moreover have "sorted_wrt (\<lambda>a b. \<not> lt a b) (insRev lt x ys)" using Cons.IH tl .
    ultimately show ?thesis using True by simp
  next
    case False
    have "\<not> lt x z" if "z \<in> set ys" for z
    proof -
      from hd that have "\<not> lt y z" by blast
      with False sw show ?thesis unfolding strictWeak_def by blast
    qed
    then have "\<forall>z \<in> set (y # ys). \<not> lt x z" using False by simp
    then show ?thesis using False Cons.prems by (simp del: set_simps)
  qed
qed

lemma sorted_foldl_insRev:
  assumes "strictWeak lt" and "sorted_wrt (\<lambda>a b. \<not> lt a b) acc"
  shows "sorted_wrt (\<lambda>a b. \<not> lt a b) (foldl (\<lambda>acc x. insRev lt x acc) acc xs)"
  using assms(2) by (induction xs arbitrary: acc) (auto intro: sorted_insRev[OF assms(1)])

lemma sorted_sortSlice:
  assumes "strictWeak lt"
  shows "sorted_wrt (\<lambda>a b. \<not> lt b a) (sortSlice lt xs)"
proof -
  have "sorted_wrt (\<lambda>a b. \<not> lt a b) (foldl (\<lambda>acc x. insRev lt x acc) [] xs)"
    using sorted_foldl_insRev[OF assms, of "[]"] by simp
  then show ?thesis by (simp add: sortSlice_insRev sorted_wrt_rev)
qed

section \<open>Pipeline: data model\<close>

type_synonym StageStatus = string

definition StatusSuccess :: StageStatus where "StatusSuccess = ''success''"
definition StatusPartialSuccess :: StageStatus where "StatusPartialSuccess = ''partial_success''"
definition StatusRetry :: StageStatus where "StatusRetry = ''retry''"
definition StatusFail :: StageStatus where "StatusFail = ''fail''"
definition StatusSkipped :: StageStatus where "StatusSkipped = ''skipped''"

lemmas Status_defs =
  StatusSuccess_def StatusPartialSuccess_def StatusRetry_def StatusFail_def StatusSkipped_def

text \<open>
  Context values are \<open>interface{}\<close>; the engine only ever prints them with \<open>fmt.Sprint\<close>.
  The values modelled are nil, strings, integers and booleans.
\<close>

datatype ctxval = VNil | VString string | VInt int | VBool bool

fun Sprint :: "ctxval \<Rightarrow> string" where
  "Sprint VNil = ''<nil>''"
| "Sprint (VString s) = s"
| "Sprint (VInt i) = Itoa i"
| "Sprint (VBool b) = (if b then ''true'' else ''false'')"

record Outcome =
  Status :: StageStatus
  PreferredLabel :: string
  SuggestedNextIDs :: "string list"
  ContextUpdates :: "string \<rightharpoonup> ctxval"
  Notes :: string
  FailureReason :: string

text \<open>
  The fields of \<open>Node\<close>, \<open>Edge\<close> and \<open>Graph\<close> that the engine and the stylesheet read.
  (Prompt, type, fidelity, thread id, timeout and the passthrough attributes are only
  read by handlers.) Where two structs share a field name, the later one is prefixed.
\<close>

record Node =
  ID :: string
  Label :: string
  Shape :: string
  MaxRetries :: int
  GoalGate :: bool
  RetryTarget :: string
  FallbackRetryTarget :: string
  Class :: string
  LLMModel :: string
  LLMProvider :: string
  ReasoningEffort :: string
  AutoStatus :: bool
  AllowPartial :: bool

record Edge =
  From :: string
  To :: string
  EdgeLabel :: string
  Condition :: string
  Weight :: int
  LoopRestart :: bool

text \<open>
  \<open>Graph.Nodes\<close> is a Go map. It is kept as an association list with distinct keys;
  a lookup is \<open>map_of\<close>, and an iteration (\<open>range\<close>) visits the entries in an order the
  caller of the model supplies, since Go does not fix it.
\<close>

record Graph =
  Name :: string
  Goal :: string
  GraphLabel :: string
  DefaultMaxRetry :: int
  GraphRetryTarget :: string
  GraphFallbackRetryTarget :: string
  Nodes :: "(string \<times> Node) list"
  Edges :: "Edge list"

definition OutgoingEdges :: "Graph \<Rightarrow> string \<Rightarrow> Edge list" where
  "OutgoingEdges g nodeID = filter (\<lambda>e. From e = nodeID) (Edges g)"

record Context =
  cvalues :: "string \<rightharpoonup> ctxval"
  logs :: "string list"

definition NewContext :: Context where
  "NewContext = \<lparr>cvalues = Map.empty, logs = []\<rparr>"

definition Set :: "Context \<Rightarrow> string \<Rightarrow> ctxval \<Rightarrow> Context" where
  "Set c key v = c\<lparr>cvalues := (cvalues c)(key \<mapsto> v)\<rparr>"

definition Get :: "Context \<Rightarrow> string \<Rightarrow> ctxval option" where
  "Get c key = cvalues c key"

definition ApplyUpdates :: "Context \<Rightarrow> (string \<rightharpoonup> ctxval) \<Rightarrow> Context" where
  "ApplyUpdates c updates = c\<lparr>cvalues := cvalues c ++ updates\<rparr>"

section \<open>Pipeline: edge selection\<close>

definition resolveKeySimple :: "string \<Rightarrow> Outcome option \<Rightarrow> Context \<Rightarrow> string" where
  "resolveKeySimple key outcome ctx =
     (if key = ''outcome'' then (case outcome of None \<Rightarrow> [] | Some oc \<Rightarrow> Status oc)
      else if key = ''preferred_label''
        then (case outcome of None \<Rightarrow> [] | Some oc \<Rightarrow> PreferredLabel oc)
      else if HasPrefix key ''context.'' then
        (case Get ctx key of Some v \<Rightarrow> Sprint v
         | None \<Rightarrow>
            (case Get ctx (TrimPrefix key ''context.'') of Some v \<Rightarrow> Sprint v | None \<Rightarrow> []))
      else (case Get ctx key of Some v \<Rightarrow> Sprint v | None \<Rightarrow> []))"

definition evaluateClauseSimple :: "string \<Rightarrow> Outcome option \<Rightarrow> Context \<Rightarrow> bool" where
  "evaluateClauseSimple clause outcome ctx =
     (if 0 \<le> Index clause ''!='' then
        (let idx = nat (Index clause ''!='');
             key = TrimSpace (take idx clause);
             val = TrimSpace (drop (idx + 2) clause)
         in resolveKeySimple key outcome ctx \<noteq> val)
      else if 0 \<le> Index clause ''='' then
        (let idx = nat (Index clause ''='');
             key = TrimSpace (take idx clause);
             val = TrimSpace (drop (idx + 1) clause)
         in resolveKeySimple key outcome ctx = val)
      else
        (let resolved = resolveKeySimple (TrimSpace clause) outcome ctx
         in resolved \<noteq> [] \<and> resolved \<noteq> ''false'' \<and> resolved \<noteq> ''0''))"

fun evaluateClauses :: "string list \<Rightarrow> Outcome option \<Rightarrow> Context \<Rightarrow> bool" where
  "evaluateClauses [] outcome ctx = True"
| "evaluateClauses (clause # clauses) outcome ctx =
     (if TrimSpace clause = [] then evaluateClauses clauses outcome ctx
      else if \<not> evaluateClauseSimple (TrimSpace clause) outcome ctx then False
      else evaluateClauses clauses outcome ctx)"

definition evaluateConditionSimple :: "string \<Rightarrow> Outcome option \<Rightarrow> Context \<Rightarrow> bool" where
  "evaluateConditionSimple condition outcome ctx =
     (if TrimSpace condition = [] then True
      else evaluateClauses (Split (TrimSpace condition) ''&&'') outcome ctx)"

text \<open>The comparison \<open>bestByWeightThenLexical\<close> sorts by: heavier first, then smaller \<open>To\<close>.\<close>

definition edgeLess :: "Edge \<Rightarrow> Edge \<Rightarrow> bool" where
  "edgeLess a b = (if Weight a \<noteq> Weight b then Weight a > Weight b else To a < To b)"

definition bestByWeightThenLexical :: "Edge list \<Rightarrow> Edge option" where
  "bestByWeightThenLexical edges =
     (if length edges = 0 then None
      else (case sortSlice edgeLess edges of [] \<Rightarrow> None | e # _ \<Rightarrow> Some e))"

definition normalizeLabel :: "string \<Rightarrow> string" where
  "normalizeLabel label0 =
     (let label = ToLower (TrimSpace label0);
          label =
            (if length label > 3 then
               (if label ! 0 = CHR ''[''
                then (if 0 \<le> Index label ''] '' then drop (nat (Index label ''] '') + 2) label
                      else label)
                else if length label > 2 \<and> label ! 1 = CHR '')'' \<and> label ! 2 = CHR '' ''
                then drop 3 label
                else if length label > 3 \<and> label ! 1 = CHR '' '' \<and> label ! 2 = CHR ''-''
                        \<and> label ! 3 = CHR '' ''
                then drop 4 label
                else label)
             else label)
      in TrimSpace label)"

text \<open>The first edge that satisfies \<open>P\<close>: a \<open>for\<close> loop that returns at its first hit.\<close>

fun firstEdge :: "(Edge \<Rightarrow> bool) \<Rightarrow> Edge list \<Rightarrow> Edge option" where
  "firstEdge P [] = None"
| "firstEdge P (e # es) = (if P e then Some e else firstEdge P es)"

fun firstSuggested :: "string list \<Rightarrow> Edge list \<Rightarrow> Edge option" where
  "firstSuggested [] edges = None"
| "firstSuggested (suggestedID # ids) edges =
     (case firstEdge (\<lambda>e. To e = suggestedID) edges of
        Some e \<Rightarrow> Some e
      | None \<Rightarrow> firstSuggested ids edges)"

definition conditionMatched :: "Edge list \<Rightarrow> Outcome option \<Rightarrow> Context \<Rightarrow> Edge list" where
  "conditionMatched edges outcome ctx =
     filter (\<lambda>e. Condition e \<noteq> [] \<and> evaluateConditionSimple (Condition e) outcome ctx) edges"

definition selectEdge :: "Node \<Rightarrow> Outcome option \<Rightarrow> Context \<Rightarrow> Graph \<Rightarrow> Edge option" where
  "selectEdge node outcome ctx graph =
     (let edges = OutgoingEdges graph (ID node) in
      if length edges = 0 then None
      else if length (conditionMatched edges outcome ctx) > 0
        then bestByWeightThenLexical (conditionMatched edges outcome ctx)
      else
        (case (case outcome of
                 Some oc \<Rightarrow>
                   (if PreferredLabel oc \<noteq> []
                    then firstEdge (\<lambda>e. normalizeLabel (EdgeLabel e)
                                          = normalizeLabel (PreferredLabel oc)) edges
                    else None)
               | None \<Rightarrow> None) of
           Some e \<Rightarrow> Some e
         | None \<Rightarrow>
            (case (case outcome of
                     Some oc \<Rightarrow>
                       (if length (SuggestedNextIDs oc) > 0
                        then firstSuggested (SuggestedNextIDs oc) edges
                        else None)
                   | None \<Rightarrow> None) of
               Some e \<Rightarrow> Some e
             | None \<Rightarrow>
                (if length (filter (\<lambda>e. Condition e = []) edges) > 0
                 then bestByWeightThenLexical (filter (\<lambda>e. Condition e = []) edges)
                 else bestByWeightThenLexical edges))))"

section \<open>Edge selection: the condition pass\<close>

lemma edgeLess_asym: "\<not> edgeLess b a" if "edgeLess a b" for a b
proof (cases "Weight a = Weight b")
  case True
  with that have "To a < To b" by (simp add: edgeLess_def)
  then have "\<not> To b < To a" by (rule less_not_sym)
  with True show ?thesis by (simp add: edgeLess_def)
next
  case False
  with that show ?thesis by (simp add: edgeLess_def)
qed
lemma edgeLess_negtrans: "\<not> edgeLess c a" if "\<not> edgeLess b a" "\<not> edgeLess c b" for a b c
proof -
  have w: "Weight b \<le> Weight a" "Weight c \<le> Weight b"
    using that by (simp_all add: edgeLess_def split: if_splits)
  show ?thesis
  proof (cases "Weight a = Weight c")
    case True
    with w have e: "Weight a = Weight b" "Weight b = Weight c" by simp_all
    from that e have "\<not> To b < To a" "\<not> To c < To b" by (simp_all add: edgeLess_def)
    then have "To a \<le> To b" "To b \<le> To c" by (simp_all only: not_less)
    then have "To a \<le> To c" by (rule order_trans)
    then have "\<not> To c < To a" by (simp only: not_less)
    then show ?thesis using True by (simp add: edgeLess_def)
  next
    case False
    with w have "Weight c < Weight a" by simp
    then show ?thesis by (simp add: edgeLess_def)
  qed
qed

lemma strictWeak_edgeLess: "strictWeak edgeLess"
  unfolding strictWeak_def using edgeLess_asym edgeLess_negtrans by blast

lemma bestByWeightThenLexical_best:
  assumes "edges \<noteq> []"
  shows "\<exists>e. bestByWeightThenLexical edges = Some e \<and> e \<in> set edges
            \<and> (\<forall>e' \<in> set edges. \<not> edgeLess e' e)"
proof -
  from assms have "sortSlice edgeLess edges \<noteq> []"
    using set_sortSlice[of edgeLess edges] by (metis set_empty)
  then obtain e es where s: "sortSlice edgeLess edges = e # es" by (cases "sortSlice edgeLess edges") auto
  have "sorted_wrt (\<lambda>a b. \<not> edgeLess b a) (e # es)"
    using sorted_sortSlice[OF strictWeak_edgeLess, of edges] s by simp
  then have "\<forall>e' \<in> set es. \<not> edgeLess e' e" by simp
  moreover have "\<not> edgeLess e e" by (simp add: edgeLess_def)
  moreover have "set edges = insert e (set es)" using set_sortSlice[of edgeLess edges] s by simp
  ultimately show ?thesis using assms s by (auto simp: bestByWeightThenLexical_def)
qed


text \<open>
  Example inputs: a node, an edge and an outcome with every other field at its Go zero
  value, and the graph of the scenario "condition wins" (\<open>a \<rightarrow> success_node\<close> on
  \<open>outcome=success\<close>, \<open>a \<rightarrow> fail_node\<close> on \<open>outcome=fail\<close> with weight 10).
\<close>

definition mkNode :: "string \<Rightarrow> string \<Rightarrow> Node" where
  "mkNode i sh = \<lparr>ID = i, Label = [], Shape = sh, MaxRetries = 0, GoalGate = False,
     RetryTarget = [], FallbackRetryTarget = [], Class = [], LLMModel = [], LLMProvider = [],
     ReasoningEffort = [], AutoStatus = False, AllowPartial = False\<rparr>"

definition mkEdge :: "string \<Rightarrow> string \<Rightarrow> string \<Rightarrow> int \<Rightarrow> Edge" where
  "mkEdge f t c w = \<lparr>From = f, To = t, EdgeLabel = [], Condition = c, Weight = w, LoopRestart = False\<rparr>"

definition mkOutcome :: "StageStatus \<Rightarrow> Outcome" where
  "mkOutcome st = \<lparr>Status = st, PreferredLabel = [], SuggestedNextIDs = [],
     ContextUpdates = Map.empty, Notes = [], FailureReason = []\<rparr>"

definition conditionWinsGraph :: Graph where
  "conditionWinsGraph = \<lparr>Name = ''test'', Goal = [], GraphLabel = [], DefaultMaxRetry = 0,
     GraphRetryTarget = [], GraphFallbackRetryTarget = [],
     Nodes = [(''a'', mkNode ''a'' ''box''), (''success_node'', mkNode ''success_node'' ''box''),
              (''fail_node'', mkNode ''fail_node'' ''box'')],
     Edges = [mkEdge ''a'' ''success_node'' ''outcome=success'' 0,
              mkEdge ''a'' ''fail_node'' ''outcome=fail'' 10]\<rparr>"

text \<open>
  C1. Condition pass of edge selection. When some outgoing edge of the node has a
  non-empty condition that evaluates to true against the outcome and the context,
  \<open>selectEdge\<close> returns one of those true-condition edges, and no other true-condition
  edge is heavier, or as heavy with a lexicographically smaller \<open>to\<close>. The edge
  returned is therefore never one whose condition is empty or false, whatever the
  weights of such edges.
\<close>

theorem selectEdge_condition_pass:
  assumes "\<exists>e \<in> set (OutgoingEdges graph (ID node)).
             Condition e \<noteq> [] \<and> evaluateConditionSimple (Condition e) outcome ctx"
  shows "\<exists>e. selectEdge node outcome ctx graph = Some e
           \<and> e \<in> set (OutgoingEdges graph (ID node))
           \<and> Condition e \<noteq> [] \<and> evaluateConditionSimple (Condition e) outcome ctx
           \<and> (\<forall>e' \<in> set (OutgoingEdges graph (ID node)).
                 Condition e' \<noteq> [] \<and> evaluateConditionSimple (Condition e') outcome ctx \<longrightarrow>
                 Weight e' < Weight e \<or> (Weight e' = Weight e \<and> To e \<le> To e'))"
proof -
  let ?edges = "OutgoingEdges graph (ID node)"
  let ?cm = "conditionMatched ?edges outcome ctx"
  from assms have ne: "?cm \<noteq> []" by (auto simp: conditionMatched_def filter_empty_conv)
  then have "?edges \<noteq> []" by (auto simp: conditionMatched_def)
  with ne have sel: "selectEdge node outcome ctx graph = bestByWeightThenLexical ?cm"
    by (simp add: selectEdge_def Let_def)
  from bestByWeightThenLexical_best[OF ne] obtain e where
    e: "bestByWeightThenLexical ?cm = Some e" "e \<in> set ?cm" "\<forall>e' \<in> set ?cm. \<not> edgeLess e' e"
    by blast
  have best: "Weight e' < Weight e \<or> (Weight e' = Weight e \<and> To e \<le> To e')"
    if "e' \<in> set ?cm" for e'
  proof -
    from e(3) that have n: "\<not> edgeLess e' e" by blast
    show ?thesis
    proof (cases "Weight e' = Weight e")
      case True
      with n have "\<not> To e' < To e" by (simp add: edgeLess_def)
      then have "To e \<le> To e'" by (simp only: not_less)
      with True show ?thesis by simp
    next
      case False
      with n show ?thesis by (simp add: edgeLess_def)
    qed
  qed
  from e(2) have "e \<in> set ?edges" "Condition e \<noteq> []"
    "evaluateConditionSimple (Condition e) outcome ctx"
    by (simp_all add: conditionMatched_def)
  moreover have "\<forall>e' \<in> set ?edges.
      Condition e' \<noteq> [] \<and> evaluateConditionSimple (Condition e') outcome ctx \<longrightarrow>
      Weight e' < Weight e \<or> (Weight e' = Weight e \<and> To e \<le> To e')"
    using best by (simp add: conditionMatched_def)
  ultimately show ?thesis using sel e(1) by simp
qed

theorem selectEdge_condition_pass_witness:
  "(\<exists>e \<in> set (OutgoingEdges conditionWinsGraph (ID (mkNode ''a'' ''box''))).
       Condition e \<noteq> []
       \<and> evaluateConditionSimple (Condition e) (Some (mkOutcome StatusSuccess)) NewContext)
   \<and> (\<exists>e. selectEdge (mkNode ''a'' ''box'') (Some (mkOutcome StatusSuccess)) NewContext
              conditionWinsGraph = Some e
          \<and> To e = ''success_node'' \<and> Weight e = 0
          \<and> evaluateConditionSimple (Condition e) (Some (mkOutcome StatusSuccess)) NewContext)"
proof -
  have h: "\<exists>e \<in> set (OutgoingEdges conditionWinsGraph (ID (mkNode ''a'' ''box''))).
       Condition e \<noteq> []
       \<and> evaluateConditionSimple (Condition e) (Some (mkOutcome StatusSuccess)) NewContext"
    by code_simp
  have v: "selectEdge (mkNode ''a'' ''box'') (Some (mkOutcome StatusSuccess)) NewContext
      conditionWinsGraph = Some (mkEdge ''a'' ''success_node'' ''outcome=success'' 0)"
    by code_simp
  from selectEdge_condition_pass[OF h] obtain e where
    "selectEdge (mkNode ''a'' ''box'') (Some (mkOutcome StatusSuccess)) NewContext
       conditionWinsGraph = Some e"
    "evaluateConditionSimple (Condition e) (Some (mkOutcome StatusSuccess)) NewContext"
    by blast
  with v h show ?thesis by (simp add: mkEdge_def)
qed

section \<open>Pipeline: executing a node with retry\<close>

text \<open>Go's \<open>int\<close> is 64 bits wide: the value an arithmetic result wraps to.\<close>

definition int64 :: "int \<Rightarrow> int" where
  "int64 x = (x + 2 ^ 63) mod 2 ^ 64 - 2 ^ 63"

record RetryPolicy =
  MaxAttempts :: int
  InitialDelay :: int
  BackoffFactor :: real
  MaxDelay :: int
  Jitter :: bool

definition buildRetryPolicy :: "Node \<Rightarrow> Graph \<Rightarrow> RetryPolicy" where
  "buildRetryPolicy node graph =
     (let maxRetries = (if MaxRetries node = 0 then DefaultMaxRetry graph else MaxRetries node)
      in \<lparr>MaxAttempts = int64 (maxRetries + 1),
          InitialDelay = 200 * 1000000,
          BackoffFactor = 2,
          MaxDelay = 60 * 1000000000,
          Jitter = True\<rparr>)"

text \<open>
  A handler is code outside the engine. \<open>Execute\<close> gets the node, the shared context
  (a pointer: the handler may change it) and the graph, and returns Go's pair
  \<open>(outcome, err)\<close>, either of which may be nil. Whatever else a handler reads or changes
  (its own fields, the file system) is the state \<open>'w\<close>.
\<close>

type_synonym HandlerReturn = "Outcome option \<times> string option"

type_synonym 'w Handler =
  "Node \<Rightarrow> Context \<Rightarrow> Graph \<Rightarrow> 'w \<Rightarrow> HandlerReturn \<times> Context \<times> 'w"

record 'w Engine =
  LogsRoot :: string
  handlerResolver :: "Node \<Rightarrow> 'w Handler option"

text \<open>
  What \<open>executeWithRetry\<close> hands back, besides the context and the handlers' state:
  the outcome, or a panic when a handler returned \<open>(nil, nil)\<close> and the engine read the
  status of the nil outcome; every pair the handler returned, in order; and the attempts
  after which the engine slept before trying again.
\<close>

datatype ExecResult = ExecPanic | ExecOutcome Outcome

record 'w Execution =
  result :: ExecResult
  returned :: "HandlerReturn list"
  slept :: "int list"
  ctxAfter :: Context
  worldAfter :: "'w"

text \<open>The verb \<open>%q\<close>, for a string with nothing to escape.\<close>

definition Quote :: "string \<Rightarrow> string" where
  "Quote s = CHR 0x22 # s @ [CHR 0x22]"

definition failOutcome :: "string \<Rightarrow> Outcome" where
  "failOutcome reason = \<lparr>Status = StatusFail, PreferredLabel = [], SuggestedNextIDs = [],
     ContextUpdates = Map.empty, Notes = [], FailureReason = reason\<rparr>"

definition partialOutcome :: Outcome where
  "partialOutcome = \<lparr>Status = StatusPartialSuccess, PreferredLabel = [], SuggestedNextIDs = [],
     ContextUpdates = Map.empty, Notes = ''retries exhausted, partial accepted'',
     FailureReason = []\<rparr>"

definition invoked :: "HandlerReturn \<Rightarrow> 'w Execution \<Rightarrow> 'w Execution" where
  "invoked r ex = ex\<lparr>returned := r # returned ex\<rparr>"

definition sleptAfter :: "int \<Rightarrow> 'w Execution \<Rightarrow> 'w Execution" where
  "sleptAfter attempt ex = ex\<lparr>slept := attempt # slept ex\<rparr>"

definition finished :: "ExecResult \<Rightarrow> Context \<Rightarrow> 'w \<Rightarrow> 'w Execution" where
  "finished r ctx w = \<lparr>result = r, returned = [], slept = [], ctxAfter = ctx, worldAfter = w\<rparr>"

text \<open>The loop \<open>for attempt := 1; attempt <= maxAttempts; attempt++\<close>, from \<open>attempt\<close> on.\<close>

function attemptLoop ::
  "'w Handler \<Rightarrow> Node \<Rightarrow> Graph \<Rightarrow> int \<Rightarrow> int \<Rightarrow> Context \<Rightarrow> 'w \<Rightarrow> 'w Execution" where
  "attemptLoop handler node graph maxAttempts attempt ctx w =
     (if attempt \<le> maxAttempts then
        (case handler node ctx graph w of
           ((outcome, err), ctx', w') \<Rightarrow>
             invoked (outcome, err)
               (case err of
                  Some msg \<Rightarrow>
                    (if attempt < maxAttempts
                     then sleptAfter attempt
                            (attemptLoop handler node graph maxAttempts (attempt + 1) ctx' w')
                     else finished (ExecOutcome (failOutcome msg)) ctx' w')
                | None \<Rightarrow>
                    (case outcome of
                       None \<Rightarrow> finished ExecPanic ctx' w'
                     | Some oc \<Rightarrow>
                         if Status oc = StatusSuccess \<or> Status oc = StatusPartialSuccess
                         then finished (ExecOutcome oc) ctx' w'
                         else if Status oc = StatusRetry then
                           (if attempt < maxAttempts
                            then sleptAfter attempt
                                   (attemptLoop handler node graph maxAttempts (attempt + 1) ctx' w')
                            else if AllowPartial node
                            then finished (ExecOutcome partialOutcome) ctx' w'
                            else finished (ExecOutcome (failOutcome ''max retries exceeded'')) ctx' w')
                         else if Status oc = StatusFail
                         then finished (ExecOutcome oc) ctx' w'
                         else attemptLoop handler node graph maxAttempts (attempt + 1) ctx' w')))
      else finished (ExecOutcome (failOutcome ''max retries exceeded'')) ctx w)"
  by pat_completeness auto
termination
  by (relation "measure (\<lambda>(handler, node, graph, maxAttempts, attempt, ctx, w).
        nat (maxAttempts + 1 - attempt))") auto

declare attemptLoop.simps [simp del]

definition executeWithRetry ::
  "'w Engine \<Rightarrow> Node \<Rightarrow> Context \<Rightarrow> Graph \<Rightarrow> RetryPolicy \<Rightarrow> 'w \<Rightarrow> 'w Execution" where
  "executeWithRetry e node ctx graph policy w =
     (case handlerResolver e node of
        None \<Rightarrow>
          finished (ExecOutcome (failOutcome (''no handler found for node '' @ Quote (ID node)))) ctx w
      | Some handler \<Rightarrow>
          attemptLoop handler node graph
            (if MaxAttempts policy < 1 then 1 else MaxAttempts policy) 1 ctx w)"


lemma returned_simps [simp]:
  "returned (invoked r ex) = r # returned ex"
  "returned (sleptAfter a ex) = returned ex"
  "returned (finished res ctx w) = []"
  by (simp_all add: invoked_def sleptAfter_def finished_def)

lemma slept_simps [simp]:
  "slept (invoked r ex) = slept ex"
  "slept (sleptAfter a ex) = a # slept ex"
  "slept (finished res ctx w) = []"
  by (simp_all add: invoked_def sleptAfter_def finished_def)

lemma result_simps [simp]:
  "result (invoked r ex) = result ex"
  "result (sleptAfter a ex) = result ex"
  "result (finished res ctx w) = res"
  by (simp_all add: invoked_def sleptAfter_def finished_def)

lemma status_distinct [simp]:
  "StatusRetry \<noteq> StatusFail" "StatusRetry \<noteq> StatusSuccess" "StatusRetry \<noteq> StatusPartialSuccess"
  "StatusFail \<noteq> StatusSuccess" "StatusFail \<noteq> StatusPartialSuccess"
  "StatusFail \<noteq> StatusRetry" "StatusSuccess \<noteq> StatusRetry" "StatusPartialSuccess \<noteq> StatusRetry"
  "StatusSuccess \<noteq> StatusFail" "StatusPartialSuccess \<noteq> StatusFail"
  "StatusSuccess \<noteq> StatusPartialSuccess" "StatusPartialSuccess \<noteq> StatusSuccess"
  by (simp_all add: Status_defs)






















section \<open>Pipeline: the run loop\<close>

text \<open>
  Go visits the entries of a map in an order it does not fix, and that may differ from
  one \<open>range\<close> statement to the next. A \<open>rangeOrder\<close> gives, for the \<open>k\<close>-th \<open>range\<close>
  statement a run executes and a map of \<open>n\<close> entries, the order of the visit as a list
  of positions; it is valid when every such list is an arrangement of \<open>0..<n\<close>.
\<close>

type_synonym rangeOrder = "nat \<Rightarrow> nat \<Rightarrow> nat list"

definition validOrder :: "rangeOrder \<Rightarrow> bool" where
  "validOrder ro = (\<forall>k n. distinct (ro k n) \<and> set (ro k n) = {..<n})"

definition rangeOf :: "rangeOrder \<Rightarrow> nat \<Rightarrow> 'a list \<Rightarrow> 'a list" where
  "rangeOf ro k entries = map (\<lambda>i. entries ! i) (ro k (length entries))"

definition inOrder :: rangeOrder where
  "inOrder k n = [0..<n]"

text \<open>\<open>m[key] = v\<close> on a map held as an association list.\<close>

fun setEntry :: "'k \<Rightarrow> 'v \<Rightarrow> ('k \<times> 'v) list \<Rightarrow> ('k \<times> 'v) list" where
  "setEntry key v [] = [(key, v)]"
| "setEntry key v (p # ps) = (if fst p = key then (key, v) # ps else p # setEntry key v ps)"

record RunResult =
  RunStatus :: StageStatus
  CompletedNodes :: "string list"
  FinalOutcome :: "Outcome option"
  NodeOutcomes :: "(string \<times> Outcome) list"

text \<open>
  \<open>Run\<close> returns \<open>(nil, err)\<close> or \<open>(result, nil)\<close>, or it panics: on a nil outcome from a
  handler, and on an edge to an undeclared node, whose nil \<open>currentNode\<close> the next
  iteration dereferences.
\<close>

datatype RunReturn = RunPanic | RunError string | RunOk RunResult

record 'w LoopState =
  currentNode :: "Node option"
  completedNodes :: "string list"
  nodeOutcomes :: "(string \<times> Outcome) list"
  ctx :: Context
  world :: "'w"
  ranges :: nat

datatype 'w Iteration = Continue "'w LoopState" | Break "'w LoopState" | Return RunReturn

definition isTerminal :: "Node \<Rightarrow> bool" where
  "isTerminal node = (Shape node = ''Msquare'')"

text \<open>\<open>checkGoalGates\<close> over the entries of \<open>nodeOutcomes\<close> in the order of the visit.\<close>

fun checkGoalGates :: "Graph \<Rightarrow> (string \<times> Outcome) list \<Rightarrow> bool \<times> Node option" where
  "checkGoalGates graph [] = (True, None)"
| "checkGoalGates graph ((nodeID, outcome) # rest) =
     (case map_of (Nodes graph) nodeID of
        Some node \<Rightarrow>
          if GoalGate node \<and> Status outcome \<noteq> StatusSuccess
               \<and> Status outcome \<noteq> StatusPartialSuccess
          then (False, Some node)
          else checkGoalGates graph rest
      | None \<Rightarrow> checkGoalGates graph rest)"

definition getRetryTarget :: "Node \<Rightarrow> Graph \<Rightarrow> string" where
  "getRetryTarget node graph =
     (if RetryTarget node \<noteq> [] then RetryTarget node
      else if FallbackRetryTarget node \<noteq> [] then FallbackRetryTarget node
      else if GraphRetryTarget graph \<noteq> [] then GraphRetryTarget graph
      else if GraphFallbackRetryTarget graph \<noteq> [] then GraphFallbackRetryTarget graph
      else [])"

fun firstNode :: "(Node \<Rightarrow> bool) \<Rightarrow> (string \<times> Node) list \<Rightarrow> Node option" where
  "firstNode P [] = None"
| "firstNode P ((key, node) # rest) = (if P node then Some node else firstNode P rest)"

definition findStartNode :: "rangeOrder \<Rightarrow> Graph \<Rightarrow> Node option" where
  "findStartNode ro graph =
     (case firstNode (\<lambda>node. Shape node = ''Mdiamond'') (rangeOf ro 0 (Nodes graph)) of
        Some node \<Rightarrow> Some node
      | None \<Rightarrow>
          firstNode (\<lambda>node. ID node = ''start'' \<or> ID node = ''Start'')
            (rangeOf ro 1 (Nodes graph)))"

definition mirrorGraphAttributes :: "Graph \<Rightarrow> Context \<Rightarrow> Context" where
  "mirrorGraphAttributes graph c =
     (let c1 = Set c ''graph.goal'' (VString (Goal graph))
      in if GraphLabel graph \<noteq> [] then Set c1 ''graph.label'' (VString (GraphLabel graph))
         else c1)"

text \<open>
  One pass through the body of the \<open>for\<close> loop of \<open>Run\<close>. Events, the stage index that
  only events carry, the auto-status file and the checkpoint file are effects outside
  the result and are left out; \<open>executeWithRetry\<close> never returns an error, so the branch
  on it is absent.
\<close>

definition iterate :: "'w Engine \<Rightarrow> rangeOrder \<Rightarrow> Graph \<Rightarrow> 'w LoopState \<Rightarrow> 'w Iteration" where
  "iterate e ro graph s =
     (case currentNode s of
        None \<Rightarrow> Return RunPanic
      | Some cur \<Rightarrow>
         (case map_of (Nodes graph) (ID cur) of
            None \<Rightarrow> Return (RunError (''node '' @ Quote (ID cur) @ '' not found in graph''))
          | Some node \<Rightarrow>
             if isTerminal node then
               (case checkGoalGates graph (rangeOf ro (ranges s) (nodeOutcomes s)) of
                  (False, Some failedGate) \<Rightarrow>
                    (case (if getRetryTarget failedGate graph \<noteq> []
                           then map_of (Nodes graph) (getRetryTarget failedGate graph)
                           else None) of
                       Some targetNode \<Rightarrow>
                         Continue (s\<lparr>currentNode := Some targetNode, ranges := Suc (ranges s)\<rparr>)
                     | None \<Rightarrow>
                         Return (RunOk \<lparr>RunStatus = StatusFail,
                                        CompletedNodes = completedNodes s,
                                        FinalOutcome = None,
                                        NodeOutcomes = nodeOutcomes s\<rparr>))
                | _ \<Rightarrow> Break (s\<lparr>ranges := Suc (ranges s)\<rparr>))
             else
               (let ex = executeWithRetry e node (ctx s) graph (buildRetryPolicy node graph)
                           (world s)
                in case result ex of
                     ExecPanic \<Rightarrow> Return RunPanic
                   | ExecOutcome outcome \<Rightarrow>
                      (let completed = completedNodes s @ [ID node];
                           outcomes = setEntry (ID node) outcome (nodeOutcomes s);
                           c1 = ApplyUpdates (ctxAfter ex) (ContextUpdates outcome);
                           c2 = Set c1 ''outcome'' (VString (Status outcome));
                           c3 = (if PreferredLabel outcome \<noteq> []
                                 then Set c2 ''preferred_label'' (VString (PreferredLabel outcome))
                                 else c2);
                           s' = s\<lparr>completedNodes := completed, nodeOutcomes := outcomes,
                                  ctx := c3, world := worldAfter ex\<rparr>
                       in case selectEdge node (Some outcome) c3 graph of
                            None \<Rightarrow>
                              if Status outcome = StatusFail
                              then Return (RunOk \<lparr>RunStatus = StatusFail,
                                                  CompletedNodes = completed,
                                                  FinalOutcome = Some outcome,
                                                  NodeOutcomes = outcomes\<rparr>)
                              else Break s'
                          | Some nextEdge \<Rightarrow>
                              Continue (s'\<lparr>currentNode :=
                                             map_of (Nodes graph) (To nextEdge)\<rparr>)))))"

text \<open>After the loop: \<open>fail\<close> as soon as a recorded outcome has failed, else \<open>success\<close>.\<close>

fun finalStatus :: "(string \<times> Outcome) list \<Rightarrow> StageStatus" where
  "finalStatus [] = StatusSuccess"
| "finalStatus ((nodeID, outcome) # rest) =
     (if Status outcome = StatusFail then StatusFail else finalStatus rest)"

definition afterLoop :: "rangeOrder \<Rightarrow> 'w LoopState \<Rightarrow> RunReturn" where
  "afterLoop ro s =
     RunOk \<lparr>RunStatus = finalStatus (rangeOf ro (ranges s) (nodeOutcomes s)),
            CompletedNodes = completedNodes s,
            FinalOutcome = None,
            NodeOutcomes = nodeOutcomes s\<rparr>"

text \<open>
  The loop may go round forever (a goal gate whose retry target fails again each time),
  so it runs on fuel: \<open>None\<close> is a run that has not returned within \<open>fuel\<close> iterations.
\<close>

fun runFrom ::
  "nat \<Rightarrow> 'w Engine \<Rightarrow> rangeOrder \<Rightarrow> Graph \<Rightarrow> 'w LoopState \<Rightarrow> RunReturn option" where
  "runFrom 0 e ro graph s = None"
| "runFrom (Suc fuel) e ro graph s =
     (case iterate e ro graph s of
        Continue s' \<Rightarrow> runFrom fuel e ro graph s'
      | Break s' \<Rightarrow> Some (afterLoop ro s')
      | Return r \<Rightarrow> Some r)"

text \<open>The variables of \<open>Run\<close> when the loop is entered.\<close>

definition startState :: "Graph \<Rightarrow> Node \<Rightarrow> 'w \<Rightarrow> 'w LoopState" where
  "startState graph startNode w =
     \<lparr>currentNode = Some startNode, completedNodes = [], nodeOutcomes = [],
      ctx = mirrorGraphAttributes graph NewContext, world = w, ranges = 2\<rparr>"

definition Run :: "nat \<Rightarrow> 'w Engine \<Rightarrow> rangeOrder \<Rightarrow> Graph \<Rightarrow> 'w \<Rightarrow> RunReturn option" where
  "Run fuel e ro graph w =
     (case findStartNode ro graph of
        None \<Rightarrow> Some (RunError ''no start node found'')
      | Some startNode \<Rightarrow> runFrom fuel e ro graph (startState graph startNode w))"

text \<open>
  To speak of the state a run has reached: the loop state after \<open>n\<close> iterations that
  all went on to a next node, and what a returned run reports.
\<close>

fun advance ::
  "nat \<Rightarrow> 'w Engine \<Rightarrow> rangeOrder \<Rightarrow> Graph \<Rightarrow> 'w LoopState \<Rightarrow> 'w LoopState option" where
  "advance 0 e ro graph s = Some s"
| "advance (Suc n) e ro graph s =
     (case iterate e ro graph s of
        Continue s' \<Rightarrow> advance n e ro graph s'
      | Break s' \<Rightarrow> None
      | Return r \<Rightarrow> None)"

definition statusOf :: "RunReturn option \<Rightarrow> StageStatus option" where
  "statusOf r = (case r of Some (RunOk res) \<Rightarrow> Some (RunStatus res) | _ \<Rightarrow> None)"

definition completedOf :: "RunReturn option \<Rightarrow> string list option" where
  "completedOf r = (case r of Some (RunOk res) \<Rightarrow> Some (CompletedNodes res) | _ \<Rightarrow> None)"

text \<open>The linear pipeline \<open>start \<rightarrow> A \<rightarrow> B \<rightarrow> exit\<close> and a handler that always succeeds.\<close>

definition linearGraph :: Graph where
  "linearGraph = \<lparr>Name = ''test'', Goal = ''Test goal'', GraphLabel = [], DefaultMaxRetry = 0,
     GraphRetryTarget = [], GraphFallbackRetryTarget = [],
     Nodes = [(''start'', mkNode ''start'' ''Mdiamond''), (''A'', mkNode ''A'' ''box''),
              (''B'', mkNode ''B'' ''box''), (''exit'', mkNode ''exit'' ''Msquare'')],
     Edges = [mkEdge ''start'' ''A'' [] 0, mkEdge ''A'' ''B'' [] 0, mkEdge ''B'' ''exit'' [] 0]\<rparr>"

definition simpleHandler :: "nat Handler" where
  "simpleHandler node c graph w = ((Some (mkOutcome StatusSuccess), None), c, Suc w)"

definition simpleEngine :: "nat Engine" where
  "simpleEngine = \<lparr>LogsRoot = [], handlerResolver = (\<lambda>node. Some simpleHandler)\<rparr>"


lemma rangeOf_inOrder [simp]: "rangeOf inOrder k entries = entries"
  by (simp add: rangeOf_def inOrder_def map_nth)

lemma validOrder_inOrder: "validOrder inOrder"
  by (auto simp: validOrder_def inOrder_def)

lemma set_rangeOf: "validOrder ro \<Longrightarrow> set (rangeOf ro k entries) = set entries"
proof -
  assume "validOrder ro"
  then have "set (ro k (length entries)) = {..<length entries}" by (simp add: validOrder_def)
  then have "set (rangeOf ro k entries) = (\<lambda>i. entries ! i) ` {..<length entries}"
    by (simp add: rangeOf_def)
  also have "\<dots> = set entries" by (auto simp: set_conv_nth)
  finally show ?thesis .
qed

text \<open>A gate is unsatisfied by an entry of \<open>nodeOutcomes\<close>.\<close>

definition unsatisfied :: "Graph \<Rightarrow> string \<times> Outcome \<Rightarrow> bool" where
  "unsatisfied graph entry =
     (case map_of (Nodes graph) (fst entry) of
        Some node \<Rightarrow> GoalGate node \<and> Status (snd entry) \<noteq> StatusSuccess
                      \<and> Status (snd entry) \<noteq> StatusPartialSuccess
      | None \<Rightarrow> False)"


lemma checkGoalGates_open:
  assumes "\<forall>entry \<in> set entries. \<not> unsatisfied graph entry"
  shows "checkGoalGates graph entries = (True, None)"
  using assms
proof (induction entries)
  case Nil
  then show ?case by simp
next
  case (Cons p rest)
  obtain nodeID outcome where p: "p = (nodeID, outcome)" by (cases p)
  from Cons.prems have "\<not> unsatisfied graph p" by simp
  then have "checkGoalGates graph (p # rest) = checkGoalGates graph rest"
    by (auto simp: unsatisfied_def p split: option.splits)
  with Cons show ?case by simp
qed




text \<open>
  Scenario graphs \<open>start \<rightarrow> A \<rightarrow> exit\<close> whose node \<open>A\<close> fails: with \<open>A\<close> a goal gate
  and no retry target anywhere, and with \<open>A\<close> an ordinary node.
\<close>

definition failHandler :: "nat Handler" where
  "failHandler node c graph w = ((Some (failOutcome ''deliberate failure''), None), c, Suc w)"

definition failAtA :: "nat Engine" where
  "failAtA = \<lparr>LogsRoot = [],
     handlerResolver = (\<lambda>node. if ID node = ''A'' then Some failHandler else Some simpleHandler)\<rparr>"

definition gateGraph :: Graph where
  "gateGraph = \<lparr>Name = ''test'', Goal = [], GraphLabel = [], DefaultMaxRetry = 0,
     GraphRetryTarget = [], GraphFallbackRetryTarget = [],
     Nodes = [(''start'', mkNode ''start'' ''Mdiamond''),
              (''A'', (mkNode ''A'' ''box'')\<lparr>GoalGate := True\<rparr>),
              (''exit'', mkNode ''exit'' ''Msquare'')],
     Edges = [mkEdge ''start'' ''A'' [] 0, mkEdge ''A'' ''exit'' [] 0]\<rparr>"

definition failRouteGraph :: Graph where
  "failRouteGraph = gateGraph\<lparr>Nodes :=
     [(''start'', mkNode ''start'' ''Mdiamond''), (''A'', mkNode ''A'' ''box''),
      (''exit'', mkNode ''exit'' ''Msquare'')]\<rparr>"



lemma finalStatus_iff:
  "finalStatus entries =
     (if \<exists>entry \<in> set entries. Status (snd entry) = StatusFail then StatusFail else StatusSuccess)"
  by (induction entries rule: finalStatus.induct) auto

text \<open>
  C4 (as amended). Exit status at a terminal node. When the loop is at a terminal node
  and every recorded outcome of a goal-gate node is \<open>success\<close> or \<open>partial_success\<close>, the
  run returns there with the nodes completed so far, and its status is \<open>fail\<close> if some
  node's recorded outcome has status \<open>fail\<close> and \<open>success\<close> otherwise. For the linear
  pipeline \<open>start \<rightarrow> A \<rightarrow> B \<rightarrow> exit\<close> with handlers that always succeed the status is
  \<open>success\<close> and the completed nodes are \<open>start, A, B\<close>.
\<close>

theorem terminal_exit_status:
  assumes "validOrder ro"
    and "currentNode s = Some cur"
    and "map_of (Nodes graph) (ID cur) = Some node"
    and "isTerminal node"
    and "\<forall>entry \<in> set (nodeOutcomes s). \<not> unsatisfied graph entry"
  shows "runFrom (Suc fuel) e ro graph s =
           Some (RunOk \<lparr>RunStatus =
                          (if \<exists>entry \<in> set (nodeOutcomes s). Status (snd entry) = StatusFail
                           then StatusFail else StatusSuccess),
                        CompletedNodes = completedNodes s,
                        FinalOutcome = None,
                        NodeOutcomes = nodeOutcomes s\<rparr>)"
proof -
  from assms(1,5) have "\<forall>entry \<in> set (rangeOf ro (ranges s) (nodeOutcomes s)).
      \<not> unsatisfied graph entry" by (simp add: set_rangeOf)
  then have "checkGoalGates graph (rangeOf ro (ranges s) (nodeOutcomes s)) = (True, None)"
    by (rule checkGoalGates_open)
  with assms(2,3,4) have "iterate e ro graph s = Break (s\<lparr>ranges := Suc (ranges s)\<rparr>)"
    by (simp add: iterate_def)
  then show ?thesis
    using assms(1) by (simp add: afterLoop_def finalStatus_iff set_rangeOf)
qed


lemma runFrom_advance:
  "advance n e ro graph s = Some s' \<Longrightarrow>
   runFrom (n + fuel) e ro graph s = runFrom fuel e ro graph s'"
  by (induction n arbitrary: s) (auto split: Iteration.splits)

definition linearAtExit :: "nat LoopState" where
  "linearAtExit =
     the (advance 3 simpleEngine inOrder linearGraph
            (startState linearGraph (mkNode ''start'' ''Mdiamond'') 0))"

lemma linear_reaches_exit:
  "advance 3 simpleEngine inOrder linearGraph
     (startState linearGraph (mkNode ''start'' ''Mdiamond'') 0) = Some linearAtExit"
proof -
  have "advance 3 simpleEngine inOrder linearGraph
     (startState linearGraph (mkNode ''start'' ''Mdiamond'') 0) \<noteq> None"
    by code_simp
  then show ?thesis by (auto simp: linearAtExit_def)
qed

lemma linear_start: "findStartNode inOrder linearGraph = Some (mkNode ''start'' ''Mdiamond'')"
  by code_simp

lemma linear_exit_facts:
  "currentNode linearAtExit = Some (mkNode ''exit'' ''Msquare'')"
  "completedNodes linearAtExit = [''start'', ''A'', ''B'']"
  "list_all (\<lambda>entry. \<not> unsatisfied linearGraph entry) (nodeOutcomes linearAtExit)"
  "\<not> list_ex (\<lambda>entry. Status (snd entry) = StatusFail) (nodeOutcomes linearAtExit)"
  by code_simp+

theorem terminal_exit_status_witness:
  "validOrder inOrder
   \<and> currentNode linearAtExit = Some (mkNode ''exit'' ''Msquare'')
   \<and> map_of (Nodes linearGraph) (ID (mkNode ''exit'' ''Msquare'')) = Some (mkNode ''exit'' ''Msquare'')
   \<and> isTerminal (mkNode ''exit'' ''Msquare'')
   \<and> list_all (\<lambda>entry. \<not> unsatisfied linearGraph entry) (nodeOutcomes linearAtExit)
   \<and> statusOf (Run 10 simpleEngine inOrder linearGraph 0) = Some StatusSuccess
   \<and> completedOf (Run 10 simpleEngine inOrder linearGraph 0) = Some [''start'', ''A'', ''B'']"
proof -
  have h3: "map_of (Nodes linearGraph) (ID (mkNode ''exit'' ''Msquare''))
      = Some (mkNode ''exit'' ''Msquare'')" by (simp add: linearGraph_def mkNode_def)
  have h4: "isTerminal (mkNode ''exit'' ''Msquare'')" by (simp add: isTerminal_def mkNode_def)
  have h5: "\<forall>entry \<in> set (nodeOutcomes linearAtExit). \<not> unsatisfied linearGraph entry"
    using linear_exit_facts(3) by (simp add: list_all_iff)
  have nf: "\<not> (\<exists>entry \<in> set (nodeOutcomes linearAtExit). Status (snd entry) = StatusFail)"
    using linear_exit_facts(4) by (simp add: list_ex_iff)
  have "Run 10 simpleEngine inOrder linearGraph 0 =
      runFrom (3 + Suc 6) simpleEngine inOrder linearGraph
        (startState linearGraph (mkNode ''start'' ''Mdiamond'') 0)"
    by (simp add: Run_def linear_start)
  also have "\<dots> = runFrom (Suc 6) simpleEngine inOrder linearGraph linearAtExit"
    using linear_reaches_exit by (rule runFrom_advance)
  also have "\<dots> = Some (RunOk \<lparr>RunStatus = StatusSuccess,
                        CompletedNodes = [''start'', ''A'', ''B''],
                        FinalOutcome = None,
                        NodeOutcomes = nodeOutcomes linearAtExit\<rparr>)"
    using terminal_exit_status[OF validOrder_inOrder linear_exit_facts(1) h3 h4 h5,
        of 6 simpleEngine] nf
    by (simp add: linear_exit_facts(2))
  finally show ?thesis
    using validOrder_inOrder linear_exit_facts(1,3) h3 h4
    by (simp add: statusOf_def completedOf_def)
qed

definition failRouteAtExit :: "nat LoopState" where
  "failRouteAtExit =
     the (advance 2 failAtA inOrder failRouteGraph
            (startState failRouteGraph (mkNode ''start'' ''Mdiamond'') 0))"

text \<open>
  C4 as stated fails: in \<open>start \<rightarrow> A \<rightarrow> exit\<close> with no goal gate, where the handler of
  \<open>A\<close> returns \<open>fail\<close> and the unconditional edge leads on to \<open>exit\<close>, the run reaches the
  terminal node with every goal gate satisfied and returns with status \<open>fail\<close>.
\<close>

theorem terminal_exit_status_counterexample:
  "findStartNode inOrder failRouteGraph = Some (mkNode ''start'' ''Mdiamond'')
   \<and> advance 2 failAtA inOrder failRouteGraph
        (startState failRouteGraph (mkNode ''start'' ''Mdiamond'') 0) \<noteq> None
   \<and> currentNode failRouteAtExit = Some (mkNode ''exit'' ''Msquare'')
   \<and> isTerminal (mkNode ''exit'' ''Msquare'')
   \<and> list_all (\<lambda>entry. \<not> unsatisfied failRouteGraph entry) (nodeOutcomes failRouteAtExit)
   \<and> checkGoalGates failRouteGraph (nodeOutcomes failRouteAtExit) = (True, None)
   \<and> statusOf (runFrom 1 failAtA inOrder failRouteGraph failRouteAtExit) = Some StatusFail
   \<and> statusOf (Run 10 failAtA inOrder failRouteGraph 0) = Some StatusFail
   \<and> completedOf (Run 10 failAtA inOrder failRouteGraph 0) = Some [''start'', ''A'']
   \<and> StatusFail \<noteq> StatusSuccess"
  by code_simp









section \<open>Agent: bounding tool output\<close>

record SessionConfig =
  MaxTurns :: int
  MaxToolRoundsPerInput :: int
  DefaultCommandTimeoutMs :: int
  MaxCommandTimeoutMs :: int
  ConfigReasoningEffort :: string
  ToolOutputLimits :: "string \<rightharpoonup> int"
  EnableLoopDetection :: bool
  LoopDetectionWindow :: int
  MaxSubagentDepth :: int

definition DefaultSessionConfig :: SessionConfig where
  "DefaultSessionConfig =
     \<lparr>MaxTurns = 0, MaxToolRoundsPerInput = 0, DefaultCommandTimeoutMs = 10000,
      MaxCommandTimeoutMs = 600000, ConfigReasoningEffort = [], ToolOutputLimits = Map.empty,
      EnableLoopDetection = True, LoopDetectionWindow = 10, MaxSubagentDepth = 1\<rparr>"

definition defaultToolOutputLimits :: "(string \<times> int) list" where
  "defaultToolOutputLimits =
     [(''read_file'', 50000), (''bash'', 30000), (''grep'', 20000), (''glob'', 10000)]"

definition getToolOutputLimit :: "SessionConfig \<Rightarrow> string \<Rightarrow> int" where
  "getToolOutputLimit config toolName =
     (case ToolOutputLimits config toolName of
        Some limit \<Rightarrow> limit
      | None \<Rightarrow>
          (case map_of defaultToolOutputLimits toolName of
             Some limit \<Rightarrow> limit
           | None \<Rightarrow> 50000))"

definition defaultLineLimits :: "(string \<times> int) list" where
  "defaultLineLimits = [(''bash'', 256), (''grep'', 200), (''glob'', 500)]"

text \<open>Go's \<open>/\<close> on integers rounds towards zero.\<close>

definition quot :: "int \<Rightarrow> int \<Rightarrow> int" where
  "quot a b = sgn a * sgn b * (\<bar>a\<bar> div \<bar>b\<bar>)"

definition truncationMarker :: "int \<Rightarrow> string" where
  "truncationMarker truncated =
     [CHR 0x0A, CHR 0x0A] @ ''[WARNING: Tool output was truncated. '' @ Itoa truncated
       @ '' characters removed from the middle. The full output is available in the event stream. If you need to see specific parts, re-run with more targeted parameters.]''
       @ [CHR 0x0A, CHR 0x0A]"

text \<open>
  \<open>truncateToolOutput\<close>. \<open>None\<close> is the panic of a slice expression whose bound lies
  outside the string: \<open>content[:headSize]\<close> for a negative \<open>headSize\<close> (a limit of \<open>-2\<close>
  or less) or one beyond the length.
\<close>

definition truncateToolOutput :: "string \<Rightarrow> int \<Rightarrow> string option" where
  "truncateToolOutput content limit =
     (if int (length content) \<le> limit then Some content
      else
        (let headSize = quot (int64 (limit * 3)) 4;
             tailSize0 = int64 (int64 (limit - headSize) - 150);
             tailSize = (if tailSize0 < 0 then 0 else tailSize0)
         in if headSize < 0 \<or> int (length content) < headSize then None
            else
              (let head = take (nat headSize) content;
                   truncated = int64 (int64 (int (length content) - headSize) - tailSize);
                   marker = truncationMarker truncated
               in if tailSize > 0 then
                    (if int (length content) - tailSize < 0 then None
                     else Some (head @ marker
                                 @ drop (nat (int (length content) - tailSize)) content))
                  else Some (head @ marker))))"

text \<open>\<open>strings.Join\<close> and \<open>truncateLines\<close>, the second stage.\<close>

fun Join :: "string list \<Rightarrow> string \<Rightarrow> string" where
  "Join [] sep = []"
| "Join [x] sep = x"
| "Join (x # y # zs) sep = x @ sep @ Join (y # zs) sep"

definition truncateLines :: "string \<Rightarrow> int \<Rightarrow> string option" where
  "truncateLines content maxLines =
     (let lines = Split content [CHR 0x0A] in
      if int (length lines) \<le> maxLines then Some content
      else
        (let headCount = quot maxLines 2;
             tailCount = maxLines - headCount;
             omitted = int (length lines) - headCount - tailCount
         in if headCount < 0 \<or> tailCount < 0 then None
            else Some (Join (take (nat headCount) lines) [CHR 0x0A]
                       @ [CHR 0x0A] @ ''[... '' @ Itoa omitted @ '' lines omitted ...]'' @ [CHR 0x0A]
                       @ Join (drop (length lines - nat tailCount) lines) [CHR 0x0A])))"

definition applyTruncation :: "SessionConfig \<Rightarrow> string \<Rightarrow> string \<Rightarrow> string option" where
  "applyTruncation config toolName output =
     (case truncateToolOutput output (getToolOutputLimit config toolName) of
        None \<Rightarrow> None
      | Some stage1 \<Rightarrow>
          (case map_of defaultLineLimits toolName of
             Some lineLimit \<Rightarrow> truncateLines stage1 lineLimit
           | None \<Rightarrow> Some stage1))"



lemma Index_nonneg_iff: "0 \<le> Index s sub \<longleftrightarrow> Index s sub \<noteq> - 1"
  by (induction s) (auto simp: Let_def)









section \<open>Agent: the loop detector\<close>

record loopDetector =
  window :: int
  history :: "string list"

definition newLoopDetector :: "int \<Rightarrow> loopDetector" where
  "newLoopDetector w = \<lparr>window = w, history = []\<rparr>"

text \<open>
  The loop \<open>for i := patternLen; i < window; i += patternLen\<close> from \<open>i\<close> on, with the
  value of \<open>allMatch\<close> when it ends. The inner loop over \<open>j\<close> compares \<open>chunk\<close> and
  \<open>pattern\<close> element by element, which is equality of the two slices. (\<open>patternLen\<close> is
  one of the literals 1, 2, 3; the test \<open>0 < patternLen\<close> is here for termination only.)
\<close>

function chunkLoop :: "string list \<Rightarrow> nat \<Rightarrow> nat \<Rightarrow> nat \<Rightarrow> bool" where
  "chunkLoop recent patternLen w i =
     (if i < w \<and> 0 < patternLen then
        (if i + patternLen > w then True
         else if take patternLen (drop i recent) \<noteq> take patternLen recent then False
         else chunkLoop recent patternLen w (i + patternLen))
      else True)"
  by pat_completeness auto
termination
  by (relation "measure (\<lambda>(recent, patternLen, w, i). w - i)") auto

declare chunkLoop.simps [simp del]

text \<open>
  The loop over the pattern lengths. \<open>recent[:patternLen]\<close> panics when \<open>patternLen\<close>
  exceeds the capacity of \<open>recent\<close>, its length plus the \<open>spare\<close> capacity the runtime
  left behind the history when it last grew it; \<open>None\<close> is that panic.
\<close>

fun patternLoop :: "nat \<Rightarrow> string list \<Rightarrow> int \<Rightarrow> nat list \<Rightarrow> bool option" where
  "patternLoop spare recent w [] = Some False"
| "patternLoop spare recent w (patternLen # rest) =
     (if w mod int patternLen \<noteq> 0 then patternLoop spare recent w rest
      else if patternLen > length recent + spare then None
      else if chunkLoop recent patternLen (nat w) patternLen then Some True
      else patternLoop spare recent w rest)"

text \<open>
  \<open>recordAndCheck\<close>: the answer (\<open>None\<close> for a panic) and the detector afterwards.
  \<open>history[len(history)-window:]\<close> panics for a negative window.
\<close>

definition recordAndCheck ::
  "nat \<Rightarrow> loopDetector \<Rightarrow> string \<Rightarrow> string \<Rightarrow> bool option \<times> loopDetector" where
  "recordAndCheck spare ld name args =
     (let key = name @ '':'' @ args;
          ld' = ld\<lparr>history := history ld @ [key]\<rparr>
      in if int (length (history ld')) < window ld' then (Some False, ld')
         else if window ld' < 0 then (None, ld')
         else (patternLoop spare
                 (drop (length (history ld') - nat (window ld')) (history ld'))
                 (window ld') [1, 2, 3],
               ld'))"

text \<open>The signature recorded for a call, and a window of signatures that repeats its
  first \<open>p\<close> entries block after block.\<close>

definition signature :: "string \<Rightarrow> string \<Rightarrow> string" where
  "signature name args = name @ '':'' @ args"

definition repeating :: "nat \<Rightarrow> string list \<Rightarrow> bool" where
  "repeating p recent =
     (\<forall>b \<in> {..<length recent div p}. take p (drop (b * p) recent) = take p recent)"


lemma chunkLoop_repeating:
  assumes "0 < p" and "length recent = w" and "w = m * p" and "k \<le> m" and "0 < k"
  shows "chunkLoop recent p w (k * p)
         = (\<forall>b. k \<le> b \<and> b < m \<longrightarrow> take p (drop (b * p) recent) = take p recent)"
  using assms(4,5)
proof (induction "m - k" arbitrary: k)
  case 0
  then have km: "k = m" by simp
  have "chunkLoop recent p w (m * p)" using assms(3) by (subst chunkLoop.simps) simp
  moreover have "\<forall>b. m \<le> b \<and> b < m \<longrightarrow> take p (drop (b * p) recent) = take p recent"
    by auto
  ultimately show ?case unfolding km by blast
next
  case (Suc d)
  then have lt: "k < m" by simp
  then have i: "k * p < w" using assms(1,3) by simp
  have "Suc k \<le> m" using lt by simp
  then have "Suc k * p \<le> m * p" by (rule mult_le_mono1)
  then have fit: "\<not> k * p + p > w" using assms(3) by simp
  have IH: "chunkLoop recent p w (Suc k * p)
         = (\<forall>b. Suc k \<le> b \<and> b < m \<longrightarrow> take p (drop (b * p) recent) = take p recent)"
    using Suc.hyps(1)[of "Suc k"] Suc.hyps(2) lt by simp
  have split: "(\<forall>b. k \<le> b \<and> b < m \<longrightarrow> take p (drop (b * p) recent) = take p recent)
      = (take p (drop (k * p) recent) = take p recent
         \<and> (\<forall>b. Suc k \<le> b \<and> b < m \<longrightarrow> take p (drop (b * p) recent) = take p recent))"
    using lt by (metis Suc_leI le_eq_less_or_eq not_less_eq_eq order_refl Suc_le_lessD)
  show ?case
    unfolding split
    using i fit assms(1) IH by (subst chunkLoop.simps) (simp add: add.commute)
qed


lemma chunkLoop_first:
  assumes "0 < p" and "length recent = nat w" and "1 \<le> w" and "w mod int p = 0"
  shows "chunkLoop recent p (nat w) p = repeating p recent"
proof -
  from assms(4) have "int p dvd w" by (simp add: dvd_eq_mod_eq_0)
  then have "p dvd nat w" using assms(3) by (simp add: int_dvd_int_iff[symmetric])
  then obtain m where m: "nat w = m * p" by (auto simp: dvd_def mult.commute)
  with assms(1,3) have m1: "1 \<le> m" by (cases m) auto
  have d: "length recent div p = m" using assms(1,2) m by simp
  have "chunkLoop recent p (nat w) (1 * p)
      = (\<forall>b. 1 \<le> b \<and> b < m \<longrightarrow> take p (drop (b * p) recent) = take p recent)"
    using assms(1,2) m m1 by (intro chunkLoop_repeating) simp_all
  also have "\<dots> = (\<forall>b. b < m \<longrightarrow> take p (drop (b * p) recent) = take p recent)"
  proof
    assume a: "\<forall>b. 1 \<le> b \<and> b < m \<longrightarrow> take p (drop (b * p) recent) = take p recent"
    show "\<forall>b. b < m \<longrightarrow> take p (drop (b * p) recent) = take p recent"
    proof (intro allI impI)
      fix b assume "b < m"
      show "take p (drop (b * p) recent) = take p recent"
      proof (cases b)
        case 0
        then show ?thesis by simp
      next
        case (Suc b')
        then have "1 \<le> b \<and> b < m" using \<open>b < m\<close> by simp
        with a show ?thesis by blast
      qed
    qed
  next
    assume "\<forall>b. b < m \<longrightarrow> take p (drop (b * p) recent) = take p recent"
    then show "\<forall>b. 1 \<le> b \<and> b < m \<longrightarrow> take p (drop (b * p) recent) = take p recent" by simp
  qed
  finally show ?thesis by (auto simp: repeating_def d)
qed

lemma patternLoop_fires:
  assumes "length recent = nat w" and "1 \<le> w" and "0 \<notin> set ps"
  shows "patternLoop spare recent w ps
         = Some (\<exists>p \<in> set ps. w mod int p = 0 \<and> repeating p recent)"
  using assms(3)
proof (induction ps)
  case Nil
  then show ?case by simp
next
  case (Cons p ps)
  then have p: "0 < p" and IH: "patternLoop spare recent w ps
         = Some (\<exists>p \<in> set ps. w mod int p = 0 \<and> repeating p recent)" by auto
  show ?case
  proof (cases "w mod int p = 0")
    case False
    then show ?thesis using IH by simp
  next
    case True
    then have "int p dvd w" by (simp add: dvd_eq_mod_eq_0)
    then have "int p \<le> w" using assms(2) by (intro zdvd_imp_le) simp_all
    then have fit: "\<not> p > length recent + spare" using assms(1,2) by simp
    have "chunkLoop recent p (nat w) p = repeating p recent"
      using p assms(1,2) True by (rule chunkLoop_first)
    then show ?thesis using True fit IH by auto
  qed
qed

text \<open>
  C8. Loop detector. With a window \<open>W\<close> of at least one, a call records the signature
  and answers without a panic; the answer is \<open>false\<close> while fewer than \<open>W\<close> signatures
  have been recorded, and from then on it is \<open>true\<close> exactly when, for some \<open>p\<close> of 1, 2,
  3 that divides \<open>W\<close>, every block of \<open>p\<close> entries of the last \<open>W\<close> signatures equals
  the first block.
\<close>

theorem loop_detector_fires_iff:
  assumes "1 \<le> window ld"
  shows "recordAndCheck spare ld name args =
           (Some (window ld \<le> int (length (history ld)) + 1
                  \<and> (\<exists>p \<in> {1, 2, 3}. window ld mod int p = 0
                        \<and> repeating p
                            (drop (length (history ld) + 1 - nat (window ld))
                               (history ld @ [signature name args])))),
            ld\<lparr>history := history ld @ [signature name args]\<rparr>)"
proof (cases "int (length (history ld)) + 1 < window ld")
  case True
  then show ?thesis by (simp add: recordAndCheck_def signature_def Let_def)
next
  case False
  let ?h = "history ld @ [signature name args]"
  let ?recent = "drop (length ?h - nat (window ld)) ?h"
  have len: "length ?recent = nat (window ld)" using False assms by simp
  have "patternLoop spare ?recent (window ld) [1, 2, 3]
      = Some (\<exists>p \<in> set [1, 2, 3]. window ld mod int p = 0 \<and> repeating p ?recent)"
    using len assms by (intro patternLoop_fires) simp_all
  then show ?thesis
    using False assms by (simp add: recordAndCheck_def signature_def Let_def)
qed

text \<open>A run of calls on one detector, with the answer to each.\<close>

fun checks :: "nat \<Rightarrow> loopDetector \<Rightarrow> (string \<times> string) list \<Rightarrow> bool option list" where
  "checks spare ld [] = []"
| "checks spare ld ((name, args) # calls) =
     fst (recordAndCheck spare ld name args)
       # checks spare (snd (recordAndCheck spare ld name args)) calls"

theorem loop_detector_fires_iff_witness:
  "1 \<le> window \<lparr>window = 4, history = [''A:x'', ''B:y'', ''A:x'']\<rparr>
   \<and> fst (recordAndCheck 0 \<lparr>window = 4, history = [''A:x'', ''B:y'', ''A:x'']\<rparr> ''B'' ''y'')
       = Some True
   \<and> checks 0 (newLoopDetector 4) [(''A'', ''x''), (''B'', ''y''), (''A'', ''x''), (''B'', ''y'')]
       = [Some False, Some False, Some False, Some True]
   \<and> checks 0 (newLoopDetector 4) [(''A'', ''x''), (''B'', ''y''), (''C'', ''z''), (''D'', ''u'')]
       = [Some False, Some False, Some False, Some False]"
proof -
  have h: "1 \<le> window \<lparr>window = 4, history = [''A:x'', ''B:y'', ''A:x'']\<rparr>" by simp
  have r: "repeating 2 [''A:x'', ''B:y'', ''A:x'', ''B:y'']" by code_simp
  have c: "checks 0 (newLoopDetector 4) [(''A'', ''x''), (''B'', ''y''), (''A'', ''x''), (''B'', ''y'')]
       = [Some False, Some False, Some False, Some True]"
     "checks 0 (newLoopDetector 4) [(''A'', ''x''), (''B'', ''y''), (''C'', ''z''), (''D'', ''u'')]
       = [Some False, Some False, Some False, Some False]"
    by code_simp+
  from loop_detector_fires_iff[OF h, of 0 "''B''" "''y''"] r
  have "fst (recordAndCheck 0 \<lparr>window = 4, history = [''A:x'', ''B:y'', ''A:x'']\<rparr> ''B'' ''y'')
       = Some True"
    by (auto simp: signature_def)
  with h c show ?thesis by simp
qed


section \<open>LLM client: data model\<close>

record Usage =
  InputTokens :: int
  OutputTokens :: int
  TotalTokens :: int
  ReasoningTokens :: int
  CachedTokens :: int
  CacheReadTokens :: int
  CacheWriteTokens :: int

record ToolCall =
  CallID :: string
  CallName :: string
  Arguments :: string

record ToolResult =
  ToolCallID :: string
  ResultContent :: string
  IsError :: bool

text \<open>
  \<open>Response\<close>, without the fields no code modelled here sets (parts, raw provider
  response, warnings, rate limit) and without the clock reading \<open>CreatedAt\<close>.
\<close>

record Response =
  RespID :: string
  RespModel :: string
  RespContent :: string
  RespToolCalls :: "ToolCall list"
  FinishReason :: string
  RespUsage :: Usage
  RespReasoning :: string

section \<open>Agent: the session\<close>

type_synonym SessionState = string

definition StateIdle :: SessionState where "StateIdle = ''idle''"
definition StateProcessing :: SessionState where "StateProcessing = ''processing''"
definition StateAwaitingInput :: SessionState where "StateAwaitingInput = ''awaiting_input''"
definition StateClosed :: SessionState where "StateClosed = ''closed''"

lemmas State_defs = StateIdle_def StateProcessing_def StateAwaitingInput_def StateClosed_def

datatype Turn =
  UserTurn string
| SteeringTurn string
| AssistantTurn string "ToolCall list" string Usage string
| ToolResultsTurn "ToolResult list"

text \<open>
  The fields of \<open>Session\<close> that \<open>Submit\<close> and \<open>runLoop\<close> read or write. Events are
  not modelled. \<open>spareCapacity\<close> is the spare capacity Go's \<open>append\<close> leaves behind the
  loop detector's history, which \<open>recordAndCheck\<close> may slice into.
\<close>

record Session =
  History :: "Turn list"
  Config :: SessionConfig
  State :: SessionState
  SteeringQueue :: "string list"
  FollowupQueue :: "string list"
  turnCount :: int
  detector :: loopDetector
  spareCapacity :: nat

text \<open>
  What a session calls outside itself: the LLM client, whose request is built from the
  history and the fixed provider profile; the execution environment of the tools; and
  the Go context, whose error \<open>ctx.Err()\<close> is there once it is done. \<open>'w\<close> is the
  state of that outside world.
\<close>

record 'w Outside =
  Complete :: "Turn list \<Rightarrow> 'w \<Rightarrow> (string + Response) \<times> 'w"
  Execute :: "string \<Rightarrow> string \<Rightarrow> 'w \<Rightarrow> (string + string) \<times> 'w"
  Cancelled :: "'w \<Rightarrow> string option"

text \<open>How a call of \<open>Submit\<close> ends: it returns nil, it returns an error, or it panics.\<close>

datatype Ending = ReturnsNil | ReturnsError string | Panics

text \<open>\<open>executeToolCalls\<close>: \<open>None\<close> when the truncation of a result panics.\<close>

fun executeToolCalls ::
  "'w Outside \<Rightarrow> SessionConfig \<Rightarrow> ToolCall list \<Rightarrow> 'w \<Rightarrow> ToolResult list option \<times> 'w" where
  "executeToolCalls out config [] w = (Some [], w)"
| "executeToolCalls out config (tc # rest) w =
     (case Execute out (CallName tc) (Arguments tc) w of
        (Inl err, w') \<Rightarrow>
          (case executeToolCalls out config rest w' of
             (None, w'') \<Rightarrow> (None, w'')
           | (Some results, w'') \<Rightarrow>
               (Some (\<lparr>ToolCallID = CallID tc, ResultContent = ''Error: '' @ err,
                        IsError = True\<rparr> # results), w''))
      | (Inr res, w') \<Rightarrow>
          (case applyTruncation config (CallName tc) res of
             None \<Rightarrow> (None, w')
           | Some content \<Rightarrow>
               (case executeToolCalls out config rest w' of
                  (None, w'') \<Rightarrow> (None, w'')
                | (Some results, w'') \<Rightarrow>
                    (Some (\<lparr>ToolCallID = CallID tc, ResultContent = content,
                             IsError = False\<rparr> # results), w''))))"

definition Steer :: "Session \<Rightarrow> string \<Rightarrow> Session" where
  "Steer s message = s\<lparr>SteeringQueue := SteeringQueue s @ [message]\<rparr>"

definition FollowUp :: "Session \<Rightarrow> string \<Rightarrow> Session" where
  "FollowUp s message = s\<lparr>FollowupQueue := FollowupQueue s @ [message]\<rparr>"

definition Close :: "Session \<Rightarrow> Session" where
  "Close s = s\<lparr>State := StateClosed\<rparr>"

text \<open>The loop detection at the end of a round, over the tool calls of the response.\<close>

fun detectLoops :: "Session \<Rightarrow> ToolCall list \<Rightarrow> Session option" where
  "detectLoops s [] = Some s"
| "detectLoops s (tc # rest) =
     (case recordAndCheck (spareCapacity s) (detector s) (CallName tc) (Arguments tc) of
        (None, ld) \<Rightarrow> None
      | (Some fired, ld) \<Rightarrow>
          detectLoops
            (if fired
             then Steer (s\<lparr>detector := ld\<rparr>)
                    ''You appear to be in a loop calling the same tool repeatedly. Please try a different approach.''
             else s\<lparr>detector := ld\<rparr>)
            rest)"

text \<open>
  One pass through the body of the \<open>for\<close> loop of \<open>runLoop\<close>. The loop is left by a
  \<open>return\<close> of an error, by a panic, or normally (a \<open>break\<close> at the turn limit or at a
  response without tool calls, or the round limit in the loop's condition), and only
  then is the follow-up queue looked at.
\<close>

datatype LoopEnd = LeftNormally | Returned string | Panicked

datatype 'w RoundEnd = NextRound Session "'w" | LeaveLoop LoopEnd Session "'w"

definition oneRound :: "'w Outside \<Rightarrow> Session \<Rightarrow> 'w \<Rightarrow> 'w RoundEnd" where
  "oneRound out s w =
     (case Cancelled out w of
        Some err \<Rightarrow> LeaveLoop (Returned err) s w
      | None \<Rightarrow>
        (let s1 = (case SteeringQueue s of
                     msg # rest \<Rightarrow>
                       s\<lparr>SteeringQueue := rest, History := History s @ [SteeringTurn msg]\<rparr>
                   | [] \<Rightarrow> s)
         in case Complete out (History s1) w of
              (Inl err, w1) \<Rightarrow> LeaveLoop (Returned (''LLM call failed: '' @ err)) s1 w1
            | (Inr resp, w1) \<Rightarrow>
                (let s2 = s1\<lparr>History := History s1
                               @ [AssistantTurn (RespContent resp) (RespToolCalls resp)
                                    (RespReasoning resp) (RespUsage resp) (RespID resp)],
                             turnCount := turnCount s1 + 1\<rparr>
                 in if MaxTurns (Config s2) > 0 \<and> turnCount s2 \<ge> MaxTurns (Config s2)
                    then LeaveLoop LeftNormally s2 w1
                    else if length (RespToolCalls resp) = 0 then LeaveLoop LeftNormally s2 w1
                    else
                      (case executeToolCalls out (Config s2) (RespToolCalls resp) w1 of
                         (None, w2) \<Rightarrow> LeaveLoop Panicked s2 w2
                       | (Some results, w2) \<Rightarrow>
                           (let s3 = s2\<lparr>History := History s2 @ [ToolResultsTurn results]\<rparr>
                            in case (if EnableLoopDetection (Config s3)
                                     then detectLoops s3 (RespToolCalls resp)
                                     else Some s3) of
                                 None \<Rightarrow> LeaveLoop Panicked s3 w2
                               | Some s4 \<Rightarrow> NextRound s4 w2)))))"

text \<open>The loop \<open>for toolRound < maxToolRounds\<close> from round \<open>toolRound\<close> on.\<close>

function rounds ::
  "'w Outside \<Rightarrow> int \<Rightarrow> int \<Rightarrow> Session \<Rightarrow> 'w \<Rightarrow> LoopEnd \<times> Session \<times> 'w" where
  "rounds out maxToolRounds toolRound s w =
     (if toolRound < maxToolRounds then
        (case oneRound out s w of
           NextRound s' w' \<Rightarrow> rounds out maxToolRounds (toolRound + 1) s' w'
         | LeaveLoop e s' w' \<Rightarrow> (e, s', w'))
      else (LeftNormally, s, w))"
  by pat_completeness auto
termination
  by (relation "measure (\<lambda>(out, maxToolRounds, toolRound, s, w).
        nat (maxToolRounds - toolRound))") auto

declare rounds.simps [simp del]

lemma detectLoops_keeps:
  "detectLoops s calls = Some s' \<Longrightarrow>
   FollowupQueue s' = FollowupQueue s \<and> State s' = State s"
  by (induction s calls rule: detectLoops.induct)
     (auto simp: Steer_def split: prod.splits option.splits if_splits)

lemma oneRound_keeps:
  "(oneRound out s w = NextRound s' w' \<or> oneRound out s w = LeaveLoop e s' w') \<Longrightarrow>
   FollowupQueue s' = FollowupQueue s \<and> State s' = State s"
  by (auto simp: oneRound_def Let_def
      split: option.splits prod.splits sum.splits list.splits if_splits
      dest!: detectLoops_keeps)

lemma rounds_keeps:
  "rounds out m r s w = (e, s', w') \<Longrightarrow>
   FollowupQueue s' = FollowupQueue s \<and> State s' = State s"
proof (induction out m r s w rule: rounds.induct)
  case (1 out m r s w)
  show ?case
  proof (cases "r < m")
    case False
    with "1.prems" show ?thesis by (subst (asm) rounds.simps) simp
  next
    case True
    show ?thesis
    proof (cases "oneRound out s w")
      case (NextRound s1 w1)
      with True "1.prems" have "rounds out m (r + 1) s1 w1 = (e, s', w')"
        by (subst (asm) rounds.simps) simp
      from "1.IH"[OF True NextRound this] oneRound_keeps[of out s w s1 w1] NextRound
      show ?thesis by simp
    next
      case (LeaveLoop e1 s1 w1)
      with True "1.prems" have "e1 = e" "s1 = s'" "w1 = w'"
        by (subst (asm) rounds.simps, simp)+
      with oneRound_keeps[of out s w s' w' e] LeaveLoop show ?thesis by simp
    qed
  qed
qed


text \<open>
  \<open>Submit\<close> and \<open>runLoop\<close> call each other. The deferred function of \<open>Submit\<close> runs
  when \<open>runLoop\<close> has returned (or panicked), so the state is still \<open>processing\<close> while
  \<open>runLoop\<close> runs.
\<close>

function Submit :: "'w Outside \<Rightarrow> Session \<Rightarrow> 'w \<Rightarrow> string \<Rightarrow> Ending \<times> Session \<times> 'w"
  and runLoop :: "'w Outside \<Rightarrow> Session \<Rightarrow> 'w \<Rightarrow> Ending \<times> Session \<times> 'w" where
  "Submit out s w input =
     (if State s \<noteq> StateIdle \<and> State s \<noteq> StateAwaitingInput
      then (ReturnsError (''session is not idle (state: '' @ State s @ '')''), s, w)
      else
        (case runLoop out
                (s\<lparr>State := StateProcessing, History := History s @ [UserTurn input]\<rparr>) w of
           (ending, s', w') \<Rightarrow>
             (ending, if State s' = StateProcessing then s'\<lparr>State := StateIdle\<rparr> else s', w')))"
| "runLoop out s w =
     (case rounds out
             (if MaxToolRoundsPerInput (Config s) = 0 then 200
              else MaxToolRoundsPerInput (Config s)) 0 s w of
        (Returned err, s', w') \<Rightarrow> (ReturnsError err, s', w')
      | (Panicked, s', w') \<Rightarrow> (Panics, s', w')
      | (LeftNormally, s', w') \<Rightarrow>
          (case FollowupQueue s' of
             msg # rest \<Rightarrow> Submit out (s'\<lparr>FollowupQueue := rest\<rparr>) w' msg
           | [] \<Rightarrow> (ReturnsNil, s', w')))"
  by pat_completeness auto
termination
proof (relation "measure (\<lambda>x. case x of
          Inl (out, s, w, input) \<Rightarrow> 2 * length (FollowupQueue s) + 1
        | Inr (out, s, w) \<Rightarrow> 2 * length (FollowupQueue s))", goal_cases)
  case 1
  show ?case by simp
next
  case (2 out s w input)
  show ?case by simp
next
  case (3 out s w x y s' w' msg rest)
  then have "rounds out (if MaxToolRoundsPerInput (Config s) = 0 then 200
              else MaxToolRoundsPerInput (Config s)) 0 s w = (LeftNormally, s', w')"
    by simp
  then have "FollowupQueue s' = FollowupQueue s" by (rule rounds_keeps[THEN conjunct1])
  with 3(4) show ?case by simp
qed

declare Submit.simps [simp del] runLoop.simps [simp del]


text \<open>
  What happens to a queued follow-up. When \<open>Submit\<close> is accepted and its loop is left
  normally with a follow-up queued, \<open>runLoop\<close> takes the message off the queue and calls
  \<open>Submit\<close> with it while the state is still \<open>processing\<close>; that inner \<open>Submit\<close> is
  refused, so the outer one returns its error, the history is the one the loop left (no
  user turn for the follow-up), and the message is gone from the queue.
\<close>

lemma followup_is_dropped:
  assumes "State s = StateIdle \<or> State s = StateAwaitingInput"
    and "rounds out (if MaxToolRoundsPerInput (Config s) = 0 then 200
                     else MaxToolRoundsPerInput (Config s)) 0
           (s\<lparr>State := StateProcessing, History := History s @ [UserTurn input]\<rparr>) w
         = (LeftNormally, s', w')"
    and "FollowupQueue s = msg # rest"
  shows "Submit out s w input =
           (ReturnsError ''session is not idle (state: processing)'',
            s'\<lparr>FollowupQueue := rest, State := StateIdle\<rparr>, w')"
proof -
  let ?s0 = "s\<lparr>State := StateProcessing, History := History s @ [UserTurn input]\<rparr>"
  from rounds_keeps[OF assms(2)] assms(3)
  have q: "FollowupQueue s' = msg # rest" and st: "State s' = StateProcessing" by simp_all
  have inner: "Submit out (s'\<lparr>FollowupQueue := rest\<rparr>) w' msg =
      (ReturnsError ''session is not idle (state: processing)'', s'\<lparr>FollowupQueue := rest\<rparr>, w')"
    using st by (subst Submit.simps) (simp add: State_defs)
  have "runLoop out ?s0 w =
      (ReturnsError ''session is not idle (state: processing)'', s'\<lparr>FollowupQueue := rest\<rparr>, w')"
  proof (cases "MaxToolRoundsPerInput (Config s) = 0")
    case True
    with assms(2) q inner show ?thesis by (subst runLoop.simps) simp
  next
    case False
    with assms(2) q inner show ?thesis by (subst runLoop.simps) simp
  qed
  then show ?thesis
    using assms(1) st by (subst Submit.simps) (auto simp: State_defs)
qed

text \<open>
  A session that is idle with the follow-up \<open>next\<close> queued, and an LLM that answers
  \<open>done\<close> without tool calls.
\<close>

definition zeroUsage :: Usage where
  "zeroUsage = \<lparr>InputTokens = 0, OutputTokens = 0, TotalTokens = 0, ReasoningTokens = 0,
     CachedTokens = 0, CacheReadTokens = 0, CacheWriteTokens = 0\<rparr>"

definition answersDone :: "unit Outside" where
  "answersDone =
     \<lparr>Complete = (\<lambda>turns w. (Inr \<lparr>RespID = ''r1'', RespModel = ''m'', RespContent = ''done'',
                                    RespToolCalls = [], FinishReason = ''stop'',
                                    RespUsage = zeroUsage, RespReasoning = []\<rparr>, w)),
      Execute = (\<lambda>name args w. (Inr [], w)),
      Cancelled = (\<lambda>w. None)\<rparr>"

definition idleSession :: Session where
  "idleSession =
     \<lparr>History = [], Config = DefaultSessionConfig, State = StateIdle, SteeringQueue = [],
      FollowupQueue = [], turnCount = 0, detector = newLoopDetector 10, spareCapacity = 0\<rparr>"

text \<open>
  C5 (the code does not do what the claim says). \<open>FollowUp(next)\<close> on an idle session
  and then \<open>Submit(first)\<close>: the loop answers \<open>first\<close> and is left normally; the
  follow-up is taken off the queue, but \<open>Submit\<close> returns the error of the refused inner
  \<open>Submit\<close>, and the history holds the user turn \<open>first\<close> and the assistant turn only:
  the follow-up is neither appended as a user turn nor run through the loop.
\<close>

theorem Submit_drops_followup:
  "Submit answersDone (FollowUp idleSession ''next'') () ''first'' =
     (ReturnsError ''session is not idle (state: processing)'',
      idleSession\<lparr>History := [UserTurn ''first'', AssistantTurn ''done'' [] [] zeroUsage ''r1''],
                  turnCount := 1\<rparr>,
      ())"
proof -
  have r: "rounds answersDone 200 0
      ((FollowUp idleSession ''next'')\<lparr>State := StateProcessing,
          History := History (FollowUp idleSession ''next'') @ [UserTurn ''first'']\<rparr>) ()
      = (LeftNormally,
         idleSession\<lparr>History := [UserTurn ''first'', AssistantTurn ''done'' [] [] zeroUsage ''r1''],
                     turnCount := 1, FollowupQueue := [''next''],
                     State := StateProcessing\<rparr>, ())"
    by (subst rounds.simps)
       (simp add: oneRound_def answersDone_def FollowUp_def idleSession_def
          DefaultSessionConfig_def)
  have "Submit answersDone (FollowUp idleSession ''next'') () ''first'' =
      (ReturnsError ''session is not idle (state: processing)'',
       (idleSession\<lparr>History := [UserTurn ''first'', AssistantTurn ''done'' [] [] zeroUsage ''r1''],
                     turnCount := 1, FollowupQueue := [''next''],
                     State := StateProcessing\<rparr>)\<lparr>FollowupQueue := [], State := StateIdle\<rparr>, ())"
  proof (rule followup_is_dropped)
    show "State (FollowUp idleSession ''next'') = StateIdle
        \<or> State (FollowUp idleSession ''next'') = StateAwaitingInput"
      by (simp add: FollowUp_def idleSession_def)
    show "FollowupQueue (FollowUp idleSession ''next'') = [''next'']"
      by (simp add: FollowUp_def idleSession_def)
    have "MaxToolRoundsPerInput (Config (FollowUp idleSession ''next'')) = 0"
      by (simp add: FollowUp_def idleSession_def DefaultSessionConfig_def)
    then show "rounds answersDone
        (if MaxToolRoundsPerInput (Config (FollowUp idleSession ''next'')) = 0 then 200
         else MaxToolRoundsPerInput (Config (FollowUp idleSession ''next''))) 0
        ((FollowUp idleSession ''next'')\<lparr>State := StateProcessing,
            History := History (FollowUp idleSession ''next'') @ [UserTurn ''first'']\<rparr>) ()
      = (LeftNormally,
         idleSession\<lparr>History := [UserTurn ''first'', AssistantTurn ''done'' [] [] zeroUsage ''r1''],
                     turnCount := 1, FollowupQueue := [''next''],
                     State := StateProcessing\<rparr>, ())"
      using r by (simp only: refl if_True)
  qed
  then show ?thesis by (simp add: idleSession_def)
qed


section \<open>LLM client: the stream accumulator\<close>

type_synonym StreamEventType = string

definition StreamEventStart :: StreamEventType where "StreamEventStart = ''start''"
definition StreamEventDelta :: StreamEventType where "StreamEventDelta = ''delta''"
definition StreamEventToolCallStart :: StreamEventType where
  "StreamEventToolCallStart = ''tool_call_start''"
definition StreamEventToolCallDelta :: StreamEventType where
  "StreamEventToolCallDelta = ''tool_call_delta''"
definition StreamEventToolCallEnd :: StreamEventType where
  "StreamEventToolCallEnd = ''tool_call_end''"
definition StreamEventReasoningDelta :: StreamEventType where
  "StreamEventReasoningDelta = ''reasoning_delta''"
definition StreamEventEnd :: StreamEventType where "StreamEventEnd = ''end''"
definition StreamEventError :: StreamEventType where "StreamEventError = ''error''"

lemmas StreamEvent_defs =
  StreamEventStart_def StreamEventDelta_def StreamEventToolCallStart_def
  StreamEventToolCallDelta_def StreamEventToolCallEnd_def StreamEventReasoningDelta_def
  StreamEventEnd_def StreamEventError_def

text \<open>
  \<open>StreamEvent\<close>: the pointers \<open>ToolCall\<close> and \<open>Usage\<close> may be nil. (The fields
  \<open>Response\<close> and \<open>Error\<close> are not read by the accumulator.)
\<close>

record StreamEvent =
  EventType :: StreamEventType
  Delta :: string
  EventToolCall :: "ToolCall option"
  EventFinishReason :: string
  EventUsage :: "Usage option"

record StreamAccumulator =
  content :: string
  reasoning :: string
  toolCalls :: "ToolCall list"
  finishReason :: string
  usage :: "Usage option"
  model :: string
  accID :: string

text \<open>
  The two operations of \<open>Process\<close> and \<open>Response\<close> that fault in Go when unguarded:
  reading through a pointer and indexing a slice.
\<close>

datatype fault = NilDereference | IndexOutOfRange

definition deref :: "'a option \<Rightarrow> fault + 'a" where
  "deref p = (case p of None \<Rightarrow> Inl NilDereference | Some v \<Rightarrow> Inr v)"

definition index :: "'a list \<Rightarrow> int \<Rightarrow> fault + 'a" where
  "index xs i = (if 0 \<le> i \<and> i < int (length xs) then Inr (xs ! nat i) else Inl IndexOutOfRange)"

definition Process :: "StreamAccumulator \<Rightarrow> StreamEvent \<Rightarrow> fault + StreamAccumulator" where
  "Process a event =
     (if EventType event = StreamEventDelta then Inr (a\<lparr>content := content a @ Delta event\<rparr>)
      else if EventType event = StreamEventReasoningDelta
        then Inr (a\<lparr>reasoning := reasoning a @ Delta event\<rparr>)
      else if EventType event = StreamEventToolCallStart then
        (if EventToolCall event \<noteq> None then
           (case deref (EventToolCall event) of
              Inl f \<Rightarrow> Inl f
            | Inr tc \<Rightarrow> Inr (a\<lparr>toolCalls := toolCalls a @ [tc]\<rparr>))
         else Inr a)
      else if EventType event = StreamEventToolCallDelta then
        (if length (toolCalls a) > 0 \<and> Delta event \<noteq> [] then
           (case index (toolCalls a) (int (length (toolCalls a)) - 1) of
              Inl f \<Rightarrow> Inl f
            | Inr lastCall \<Rightarrow>
                Inr (a\<lparr>toolCalls := (toolCalls a)
                          [length (toolCalls a) - 1 :=
                             lastCall\<lparr>Arguments := Arguments lastCall @ Delta event\<rparr>]\<rparr>))
         else Inr a)
      else if EventType event = StreamEventEnd then
        Inr (a\<lparr>finishReason := EventFinishReason event,
               usage := (if EventUsage event \<noteq> None then EventUsage event else usage a)\<rparr>)
      else Inr a)"

text \<open>\<open>Response\<close>: the usage stays at Go's zero value when none was received.\<close>

definition Response :: "StreamAccumulator \<Rightarrow> fault + Response" where
  "Response a =
     (let resp = \<lparr>RespID = accID a, RespModel = model a, RespContent = content a,
                  RespToolCalls = toolCalls a, FinishReason = finishReason a,
                  RespUsage = zeroUsage, RespReasoning = reasoning a\<rparr>
      in if usage a \<noteq> None then
           (case deref (usage a) of
              Inl f \<Rightarrow> Inl f
            | Inr u \<Rightarrow> Inr (resp\<lparr>RespUsage := u\<rparr>))
         else Inr resp)"

text \<open>Feeding a sequence of events to the accumulator, stopping at a fault.\<close>

fun ProcessAll :: "StreamAccumulator \<Rightarrow> StreamEvent list \<Rightarrow> fault + StreamAccumulator" where
  "ProcessAll a [] = Inr a"
| "ProcessAll a (event # events) =
     (case Process a event of Inl f \<Rightarrow> Inl f | Inr a' \<Rightarrow> ProcessAll a' events)"

definition emptyAccumulator :: StreamAccumulator where
  "emptyAccumulator = \<lparr>content = [], reasoning = [], toolCalls = [], finishReason = [],
     usage = None, model = [], accID = []\<rparr>"

lemma Process_total: "\<exists>a'. Process a event = Inr a'"
  by (auto simp: Process_def deref_def index_def split: option.splits)

lemma ProcessAll_total: "\<exists>a'. ProcessAll a events = Inr a'"
proof (induction events arbitrary: a)
  case Nil
  show ?case by simp
next
  case (Cons event events)
  from Process_total obtain a1 where "Process a event = Inr a1" by blast
  with Cons[of a1] show ?case by simp
qed

lemma Response_total: "\<exists>r. Response a = Inr r"
  by (auto simp: Response_def deref_def Let_def split: option.splits)

text \<open>
  C10. The stream accumulator is total. Whatever events it is fed, in whatever order,
  no \<open>Process\<close> faults and \<open>Response\<close> returns a response afterwards. A
  \<open>tool_call_delta\<close> that arrives when no tool call has been started, or whose delta
  is empty, leaves the accumulator as it was, and so does a \<open>tool_call_start\<close> whose
  tool call is nil.
\<close>

theorem accumulator_total:
  "(\<exists>a'. ProcessAll a events = Inr a' \<and> (\<exists>r. Response a' = Inr r))
   \<and> (EventType event = StreamEventToolCallDelta \<and> (toolCalls a = [] \<or> Delta event = [])
        \<longrightarrow> Process a event = Inr a)
   \<and> (EventType event = StreamEventToolCallStart \<and> EventToolCall event = None
        \<longrightarrow> Process a event = Inr a)"
proof -
  from ProcessAll_total obtain a' where "ProcessAll a events = Inr a'" by blast
  moreover from Response_total obtain r where "Response a' = Inr r" by blast
  ultimately have "\<exists>a'. ProcessAll a events = Inr a' \<and> (\<exists>r. Response a' = Inr r)" by blast
  moreover have "Process a event = Inr a"
    if "EventType event = StreamEventToolCallDelta" "toolCalls a = [] \<or> Delta event = []"
    using that by (auto simp: Process_def StreamEvent_defs)
  moreover have "Process a event = Inr a"
    if "EventType event = StreamEventToolCallStart" "EventToolCall event = None"
    using that by (auto simp: Process_def StreamEvent_defs)
  ultimately show ?thesis by blast
qed

text \<open>A malformed stream, and the stream of the scenario "streaming accumulation".\<close>

definition mkEvent :: "StreamEventType \<Rightarrow> string \<Rightarrow> StreamEvent" where
  "mkEvent t d = \<lparr>EventType = t, Delta = d, EventToolCall = None, EventFinishReason = [],
     EventUsage = None\<rparr>"

definition malformedStream :: "StreamEvent list" where
  "malformedStream =
     [mkEvent StreamEventToolCallDelta ''{\"a\"'',
      mkEvent StreamEventToolCallStart [],
      mkEvent StreamEventDelta ''Hello'',
      (mkEvent StreamEventToolCallStart [])
        \<lparr>EventToolCall := Some \<lparr>CallID = ''c1'', CallName = ''read_file'', Arguments = []\<rparr>\<rparr>,
      mkEvent StreamEventToolCallDelta [],
      mkEvent StreamEventToolCallDelta ''{}'',
      mkEvent ''no_such_event'' ''x'',
      mkEvent StreamEventDelta '', world!'',
      (mkEvent StreamEventEnd [])\<lparr>EventFinishReason := ''stop''\<rparr>]"

theorem accumulator_total_witness:
  "EventType (mkEvent StreamEventToolCallDelta ''{\"a\"'') = StreamEventToolCallDelta
   \<and> toolCalls emptyAccumulator = []
   \<and> Process emptyAccumulator (mkEvent StreamEventToolCallDelta ''{\"a\"'') = Inr emptyAccumulator
   \<and> EventType (mkEvent StreamEventToolCallStart []) = StreamEventToolCallStart
   \<and> EventToolCall (mkEvent StreamEventToolCallStart []) = None
   \<and> Process emptyAccumulator (mkEvent StreamEventToolCallStart []) = Inr emptyAccumulator
   \<and> (\<exists>a'. ProcessAll emptyAccumulator malformedStream = Inr a'
          \<and> Response a' =
               Inr \<lparr>RespID = [], RespModel = [], RespContent = ''Hello, world!'',
                     RespToolCalls = [\<lparr>CallID = ''c1'', CallName = ''read_file'',
                                       Arguments = ''{}''\<rparr>],
                     FinishReason = ''stop'', RespUsage = zeroUsage, RespReasoning = []\<rparr>)"
proof -
  have t1: "EventType (mkEvent StreamEventToolCallDelta ''{\"a\"'') = StreamEventToolCallDelta"
    and t2: "toolCalls emptyAccumulator = []"
    and t3: "EventType (mkEvent StreamEventToolCallStart []) = StreamEventToolCallStart"
    and t4: "EventToolCall (mkEvent StreamEventToolCallStart []) = None"
    by (simp_all add: mkEvent_def emptyAccumulator_def)
  from accumulator_total[of emptyAccumulator malformedStream
      "mkEvent StreamEventToolCallDelta ''{\"a\"''"] t1 t2
  have p1: "Process emptyAccumulator (mkEvent StreamEventToolCallDelta ''{\"a\"'')
      = Inr emptyAccumulator" by blast
  from accumulator_total[of emptyAccumulator malformedStream
      "mkEvent StreamEventToolCallStart []"] t3 t4
  have p2: "Process emptyAccumulator (mkEvent StreamEventToolCallStart []) = Inr emptyAccumulator"
    by blast
  have run: "(case ProcessAll emptyAccumulator malformedStream of
               Inl f \<Rightarrow> False
             | Inr a' \<Rightarrow> Response a' =
               Inr \<lparr>RespID = [], RespModel = [], RespContent = ''Hello, world!'',
                     RespToolCalls = [\<lparr>CallID = ''c1'', CallName = ''read_file'',
                                       Arguments = ''{}''\<rparr>],
                     FinishReason = ''stop'', RespUsage = zeroUsage, RespReasoning = []\<rparr>)"
    by code_simp
  then have "\<exists>a'. ProcessAll emptyAccumulator malformedStream = Inr a'
          \<and> Response a' =
               Inr \<lparr>RespID = [], RespModel = [], RespContent = ''Hello, world!'',
                     RespToolCalls = [\<lparr>CallID = ''c1'', CallName = ''read_file'',
                                       Arguments = ''{}''\<rparr>],
                     FinishReason = ''stop'', RespUsage = zeroUsage, RespReasoning = []\<rparr>"
    by (cases "ProcessAll emptyAccumulator malformedStream") auto
  with t1 t2 t3 t4 p1 p2 show ?thesis by blast
qed


section \<open>Stylesheet\<close>

type_synonym SelectorType = int

definition SelectorUniversal :: SelectorType where "SelectorUniversal = 0"
definition SelectorShape :: SelectorType where "SelectorShape = 1"
definition SelectorClass :: SelectorType where "SelectorClass = 2"
definition SelectorID :: SelectorType where "SelectorID = 3"

definition SpecificityUniversal :: int where "SpecificityUniversal = 0"
definition SpecificityShape :: int where "SpecificityShape = 1"
definition SpecificityClass :: int where "SpecificityClass = 2"
definition SpecificityID :: int where "SpecificityID = 3"

text \<open>
  \<open>Rule.Properties\<close> is a Go map, kept as an association list with distinct keys.
  A \<open>propertyOrder\<close> gives the order in which the \<open>range\<close> over the properties visits
  them, as positions: for the node under a key of \<open>graph.Nodes\<close>, the position of the
  rule among the node's sorted matches, and the number of properties.
\<close>

record Rule =
  Selector :: string
  RuleSelectorType :: SelectorType
  Properties :: "(string \<times> string) list"
  Specificity :: int

record Stylesheet =
  Rules :: "Rule list"

type_synonym propertyOrder = "string \<Rightarrow> nat \<Rightarrow> nat \<Rightarrow> nat list"

definition validPropertyOrder :: "propertyOrder \<Rightarrow> bool" where
  "validPropertyOrder po = (\<forall>key j n. distinct (po key j n) \<and> set (po key j n) = {..<n})"

definition storedOrder :: propertyOrder where
  "storedOrder key j n = [0..<n]"

text \<open>
  The rule \<open>Parse\<close> builds for a selector before it reads the declarations (the
  \<open>switch\<close> on the selector text).
\<close>

definition selectorRule :: "string \<Rightarrow> Rule" where
  "selectorRule selector =
     (if selector = ''*'' then
        \<lparr>Selector = selector, RuleSelectorType = SelectorUniversal, Properties = [],
         Specificity = SpecificityUniversal\<rparr>
      else if HasPrefix selector ''.'' then
        \<lparr>Selector = TrimPrefix selector ''.'', RuleSelectorType = SelectorClass, Properties = [],
         Specificity = SpecificityClass\<rparr>
      else if HasPrefix selector ''#'' then
        \<lparr>Selector = TrimPrefix selector ''#'', RuleSelectorType = SelectorID, Properties = [],
         Specificity = SpecificityID\<rparr>
      else
        \<lparr>Selector = selector, RuleSelectorType = SelectorShape, Properties = [],
         Specificity = SpecificityShape\<rparr>)"

fun anyClass :: "string list \<Rightarrow> string \<Rightarrow> bool" where
  "anyClass [] selector = False"
| "anyClass (c # classes) selector =
     (if TrimSpace c = selector then True else anyClass classes selector)"

definition matches :: "Rule \<Rightarrow> Node \<Rightarrow> bool" where
  "matches rule node =
     (if RuleSelectorType rule = SelectorUniversal then True
      else if RuleSelectorType rule = SelectorShape then Shape node = Selector rule
      else if RuleSelectorType rule = SelectorClass
        then anyClass (Split (Class node) '','') (Selector rule)
      else if RuleSelectorType rule = SelectorID then ID node = Selector rule
      else False)"

definition specLess :: "Rule \<Rightarrow> Rule \<Rightarrow> bool" where
  "specLess a b = (Specificity a < Specificity b)"

definition sortBySpecificity :: "Rule list \<Rightarrow> Rule list" where
  "sortBySpecificity rules = insertionLoop specLess rules 1"

definition applyProperty :: "Node \<Rightarrow> string \<Rightarrow> string \<Rightarrow> Node" where
  "applyProperty node prop val =
     (if prop = ''llm_model'' \<or> prop = ''model'' then node\<lparr>LLMModel := val\<rparr>
      else if prop = ''llm_provider'' then node\<lparr>LLMProvider := val\<rparr>
      else if prop = ''reasoning_effort'' then node\<lparr>ReasoningEffort := val\<rparr>
      else node)"

text \<open>The loop over the properties of one rule, and the loop over the sorted matches.\<close>

definition applyRule :: "nat list \<Rightarrow> Node \<Rightarrow> Rule \<Rightarrow> Node" where
  "applyRule visit node rule =
     foldl (\<lambda>n i. applyProperty n (fst (Properties rule ! i)) (snd (Properties rule ! i)))
       node visit"

fun applyRules :: "propertyOrder \<Rightarrow> string \<Rightarrow> nat \<Rightarrow> Node \<Rightarrow> Rule list \<Rightarrow> Node" where
  "applyRules po key j node [] = node"
| "applyRules po key j node (rule # rules) =
     applyRules po key (Suc j)
       (applyRule (po key j (length (Properties rule))) node rule) rules"

text \<open>The body of the loop of \<open>Apply\<close> for the node under \<open>key\<close>.\<close>

definition applyToNode :: "propertyOrder \<Rightarrow> Stylesheet \<Rightarrow> string \<Rightarrow> Node \<Rightarrow> Node" where
  "applyToNode po ss key node =
     (let explicitModel = LLMModel node;
          explicitProvider = LLMProvider node;
          explicitEffort = ReasoningEffort node;
          cleared = node\<lparr>LLMModel := [], LLMProvider := [], ReasoningEffort := []\<rparr>;
          matched = sortBySpecificity (filter (\<lambda>rule. matches rule cleared) (Rules ss));
          n1 = applyRules po key 0 cleared matched;
          n2 = (if explicitModel \<noteq> [] then n1\<lparr>LLMModel := explicitModel\<rparr> else n1);
          n3 = (if explicitProvider \<noteq> [] then n2\<lparr>LLMProvider := explicitProvider\<rparr> else n2)
      in if explicitEffort \<noteq> [] then n3\<lparr>ReasoningEffort := explicitEffort\<rparr> else n3)"

definition Apply :: "propertyOrder \<Rightarrow> Stylesheet \<Rightarrow> Graph \<Rightarrow> Graph" where
  "Apply po ss graph =
     graph\<lparr>Nodes := map (\<lambda>(key, node). (key, applyToNode po ss key node)) (Nodes graph)\<rparr>"

definition specificityGraph :: Graph where
  "specificityGraph = \<lparr>Name = [], Goal = [], GraphLabel = [], DefaultMaxRetry = 0,
     GraphRetryTarget = [], GraphFallbackRetryTarget = [],
     Nodes = [(''generic'', mkNode ''generic'' ''diamond''),
              (''boxed'', mkNode ''boxed'' ''box''),
              (''coder'', (mkNode ''coder'' ''box'')\<lparr>Class := ''code''\<rparr>),
              (''specific'', (mkNode ''specific'' ''box'')\<lparr>Class := ''code''\<rparr>),
              (''explicit'', (mkNode ''explicit'' ''box'')\<lparr>LLMModel := ''explicit-model''\<rparr>)],
     Edges = []\<rparr>"

definition specificitySheet :: Stylesheet where
  "specificitySheet = \<lparr>Rules =
     [(selectorRule ''#specific'')\<lparr>Properties := [(''llm_model'', ''id-model'')]\<rparr>,
      (selectorRule ''.code'')\<lparr>Properties := [(''llm_model'', ''class-model'')]\<rparr>,
      (selectorRule ''*'')\<lparr>Properties := [(''llm_model'', ''universal''),
                                              (''llm_provider'', ''anyone'')]\<rparr>,
      (selectorRule ''box'')\<lparr>Properties := [(''llm_model'', ''shape-model'')]\<rparr>]\<rparr>"



lemma strictWeak_specLess: "strictWeak specLess"
  by (auto simp: strictWeak_def specLess_def)

lemma sortBySpecificity_sorted:
  "sorted_wrt (\<lambda>a b. Specificity a \<le> Specificity b) (sortBySpecificity rules)"
proof -
  have "sorted_wrt (\<lambda>a b. \<not> specLess b a) (sortSlice specLess rules)"
    using strictWeak_specLess by (rule sorted_sortSlice)
  moreover have "(\<lambda>a b. \<not> specLess b a) = (\<lambda>a b. Specificity a \<le> Specificity b)"
    by (auto simp: specLess_def fun_eq_iff)
  ultimately show ?thesis by (simp add: sortBySpecificity_def sortSlice_def)
qed

lemma sortBySpecificity_set: "set (sortBySpecificity rules) = set rules"
  using set_sortSlice[of specLess rules] by (simp add: sortBySpecificity_def sortSlice_def)

text \<open>
  The attribute of a node that a property name writes, and property names that write
  the same attribute (\<open>model\<close> is an alias of \<open>llm_model\<close>).
\<close>

definition attr :: "string \<Rightarrow> Node \<Rightarrow> string" where
  "attr prop node =
     (if prop = ''llm_model'' \<or> prop = ''model'' then LLMModel node
      else if prop = ''llm_provider'' then LLMProvider node
      else if prop = ''reasoning_effort'' then ReasoningEffort node
      else [])"

definition recognized :: "string \<Rightarrow> bool" where
  "recognized prop =
     (prop = ''llm_model'' \<or> prop = ''model'' \<or> prop = ''llm_provider''
      \<or> prop = ''reasoning_effort'')"

definition sameAttr :: "string \<Rightarrow> string \<Rightarrow> bool" where
  "sameAttr p q =
     (p = q \<or> ((p = ''llm_model'' \<or> p = ''model'') \<and> (q = ''llm_model'' \<or> q = ''model'')))"

definition writes :: "string \<Rightarrow> Rule \<Rightarrow> bool" where
  "writes p rule = (\<exists>entry \<in> set (Properties rule). sameAttr p (fst entry))"

lemma applyProperty_other:
  "\<not> sameAttr p q \<Longrightarrow> attr p (applyProperty n q v) = attr p n"
  by (auto simp: applyProperty_def attr_def sameAttr_def)

lemma applyProperty_same:
  "recognized p \<Longrightarrow> sameAttr p q \<Longrightarrow> attr p (applyProperty n q v) = v"
  by (auto simp: applyProperty_def attr_def sameAttr_def recognized_def)

lemma applyRule_not_writes:
  assumes "\<not> writes p rule" and "\<forall>i \<in> set visit. i < length (Properties rule)"
  shows "attr p (applyRule visit n rule) = attr p n"
  using assms(2) unfolding applyRule_def
proof (induction visit arbitrary: n)
  case Nil
  show ?case by simp
next
  case (Cons i visit)
  then have "Properties rule ! i \<in> set (Properties rule)" by simp
  with assms(1) have "\<not> sameAttr p (fst (Properties rule ! i))" by (auto simp: writes_def)
  then have "attr p (applyProperty n (fst (Properties rule ! i)) (snd (Properties rule ! i)))
      = attr p n" by (rule applyProperty_other)
  with Cons show ?case by simp
qed

lemma applyRule_writes:
  assumes "recognized p"
    and "\<forall>entry \<in> set (Properties rule). sameAttr p (fst entry) \<longrightarrow> snd entry = v"
    and "\<forall>i \<in> set visit. i < length (Properties rule)"
    and "\<exists>i \<in> set visit. sameAttr p (fst (Properties rule ! i))"
  shows "attr p (applyRule visit n rule) = v"
  using assms(3,4) unfolding applyRule_def
proof (induction visit arbitrary: n rule: rev_induct)
  case Nil
  then show ?case by simp
next
  case (snoc i visit)
  let ?n = "foldl (\<lambda>n i. applyProperty n (fst (Properties rule ! i)) (snd (Properties rule ! i)))
              n visit"
  from snoc.prems(1) have i: "Properties rule ! i \<in> set (Properties rule)" by simp
  show ?case
  proof (cases "sameAttr p (fst (Properties rule ! i))")
    case True
    with i assms(2) have "snd (Properties rule ! i) = v" by blast
    with True assms(1) show ?thesis by (simp add: applyProperty_same)
  next
    case False
    with snoc.prems(2) have "\<exists>i \<in> set visit. sameAttr p (fst (Properties rule ! i))" by auto
    moreover from snoc.prems(1) have "\<forall>i \<in> set visit. i < length (Properties rule)" by simp
    ultimately have "attr p ?n = v" by (rule snoc.IH[rotated])
    with False show ?thesis by (simp add: applyProperty_other)
  qed
qed

lemma applyRules_after:
  assumes "validPropertyOrder po" and "recognized p"
    and "\<forall>entry \<in> set (Properties r). sameAttr p (fst entry) \<longrightarrow> snd entry = v"
    and "writes p r"
    and "\<forall>rule \<in> set rules. rule = r \<or> \<not> writes p rule"
    and "attr p n = v"
  shows "attr p (applyRules po key j n rules) = v"
  using assms(5,6)
proof (induction rules arbitrary: j n)
  case Nil
  then show ?case by simp
next
  case (Cons rule rules)
  let ?visit = "po key j (length (Properties rule))"
  have inb: "\<forall>i \<in> set ?visit. i < length (Properties rule)"
    using assms(1) by (simp add: validPropertyOrder_def)
  have "attr p (applyRule ?visit n rule) = v"
  proof (cases "rule = r")
    case True
    from assms(4) obtain entry where e: "entry \<in> set (Properties r)" "sameAttr p (fst entry)"
      by (auto simp: writes_def)
    then obtain i where "i < length (Properties r)" "Properties r ! i = entry"
      by (auto simp: in_set_conv_nth)
    then have "\<exists>i \<in> set ?visit. sameAttr p (fst (Properties rule ! i))"
      using assms(1) e True by (auto simp: validPropertyOrder_def)
    with assms(2,3) inb True show ?thesis by (intro applyRule_writes) simp_all
  next
    case False
    with Cons.prems(1) have "\<not> writes p rule" by simp
    with inb Cons.prems(2) show ?thesis by (simp add: applyRule_not_writes)
  qed
  moreover from Cons.prems(1) have "\<forall>rule \<in> set rules. rule = r \<or> \<not> writes p rule" by simp
  ultimately show ?case using Cons.IH by simp
qed

lemma applyRules_highest:
  assumes "validPropertyOrder po" and "recognized p"
    and "\<forall>entry \<in> set (Properties r). sameAttr p (fst entry) \<longrightarrow> snd entry = v"
    and "writes p r"
    and "r \<in> set rules"
    and "sorted_wrt (\<lambda>a b. Specificity a \<le> Specificity b) rules"
    and "\<forall>rule \<in> set rules. writes p rule \<longrightarrow> rule = r \<or> Specificity rule < Specificity r"
  shows "attr p (applyRules po key j n rules) = v"
  using assms(5,6,7)
proof (induction rules arbitrary: j n)
  case Nil
  then show ?case by simp
next
  case (Cons rule rules)
  let ?visit = "po key j (length (Properties rule))"
  show ?case
  proof (cases "rule = r")
    case True
    have inb: "\<forall>i \<in> set ?visit. i < length (Properties rule)"
      using assms(1) by (simp add: validPropertyOrder_def)
    from assms(4) obtain entry where e: "entry \<in> set (Properties r)" "sameAttr p (fst entry)"
      by (auto simp: writes_def)
    then obtain i where "i < length (Properties r)" "Properties r ! i = entry"
      by (auto simp: in_set_conv_nth)
    then have "\<exists>i \<in> set ?visit. sameAttr p (fst (Properties rule ! i))"
      using assms(1) e True by (auto simp: validPropertyOrder_def)
    with assms(2,3) inb True have here: "attr p (applyRule ?visit n rule) = v"
      by (intro applyRule_writes) simp_all
    have "\<forall>rule' \<in> set rules. rule' = r \<or> \<not> writes p rule'"
    proof
      fix rule' assume m: "rule' \<in> set rules"
      with Cons.prems(2) True have "Specificity r \<le> Specificity rule'" by simp
      with Cons.prems(3) m show "rule' = r \<or> \<not> writes p rule'" by fastforce
    qed
    with assms(1-4) here show ?thesis by (simp add: applyRules_after)
  next
    case False
    with Cons.prems have "r \<in> set rules"
      "sorted_wrt (\<lambda>a b. Specificity a \<le> Specificity b) rules"
      "\<forall>rule \<in> set rules. writes p rule \<longrightarrow> rule = r \<or> Specificity rule < Specificity r"
      by simp_all
    then show ?thesis using Cons.IH by simp
  qed
qed


lemma matches_cleared:
  "matches rule (node\<lparr>LLMModel := [], LLMProvider := [], ReasoningEffort := []\<rparr>)
   = matches rule node"
  by (simp add: matches_def)

lemma applyToNode_explicit:
  "(LLMModel node \<noteq> [] \<longrightarrow> LLMModel (applyToNode po ss key node) = LLMModel node)
   \<and> (LLMProvider node \<noteq> [] \<longrightarrow> LLMProvider (applyToNode po ss key node) = LLMProvider node)
   \<and> (ReasoningEffort node \<noteq> [] \<longrightarrow>
        ReasoningEffort (applyToNode po ss key node) = ReasoningEffort node)"
  by (simp add: applyToNode_def Let_def)

lemma applyToNode_attr:
  assumes "recognized p" and "attr p node = []"
  shows "attr p (applyToNode po ss key node) =
         attr p (applyRules po key 0
                   (node\<lparr>LLMModel := [], LLMProvider := [], ReasoningEffort := []\<rparr>)
                   (sortBySpecificity (filter (\<lambda>rule. matches rule node) (Rules ss))))"
proof -
  from assms(1) consider "p = ''llm_model'' \<or> p = ''model''" | "p = ''llm_provider''"
    | "p = ''reasoning_effort''"
    by (auto simp: recognized_def)
  then show ?thesis
  proof cases
    case 1
    with assms(2) have "LLMModel node = []" by (auto simp: attr_def)
    moreover from 1 have "attr p = LLMModel" by (auto simp: attr_def fun_eq_iff)
    ultimately show ?thesis by (simp add: applyToNode_def Let_def matches_cleared)
  next
    case 2
    with assms(2) have "LLMProvider node = []" by (simp add: attr_def)
    moreover from 2 have "attr p = LLMProvider" by (simp add: attr_def fun_eq_iff)
    ultimately show ?thesis by (simp add: applyToNode_def Let_def matches_cleared)
  next
    case 3
    with assms(2) have "ReasoningEffort node = []" by (simp add: attr_def)
    moreover from 3 have "attr p = ReasoningEffort" by (simp add: attr_def fun_eq_iff)
    ultimately show ?thesis by (simp add: applyToNode_def Let_def matches_cleared)
  qed
qed

lemma validPropertyOrder_storedOrder: "validPropertyOrder storedOrder"
  by (auto simp: validPropertyOrder_def storedOrder_def)

text \<open>
  C9. Applying a stylesheet to a node. A model, provider or reasoning effort that the
  node sets itself is the same after the application, whatever the rules say. The
  matching rules are applied in ascending order of specificity, and they are exactly
  the rules of the stylesheet that match; so when an attribute is not set by the node
  and a matching rule writes it, with every other matching rule that writes it of lower
  specificity, the node ends up with that rule's value. The specificity of a rule is 0
  for \<open>*\<close>, 1 for a bare shape, 2 for \<open>.class\<close> and 3 for \<open>#id\<close>, and \<open>Apply\<close> does this
  to every node of the graph.
\<close>

theorem stylesheet_apply:
  "(LLMModel node \<noteq> [] \<longrightarrow> LLMModel (applyToNode po ss key node) = LLMModel node)
   \<and> (LLMProvider node \<noteq> [] \<longrightarrow> LLMProvider (applyToNode po ss key node) = LLMProvider node)
   \<and> (ReasoningEffort node \<noteq> [] \<longrightarrow>
        ReasoningEffort (applyToNode po ss key node) = ReasoningEffort node)
   \<and> sorted_wrt (\<lambda>a b. Specificity a \<le> Specificity b)
        (sortBySpecificity (filter (\<lambda>rule. matches rule node) (Rules ss)))
   \<and> set (sortBySpecificity (filter (\<lambda>rule. matches rule node) (Rules ss)))
        = {rule \<in> set (Rules ss). matches rule node}
   \<and> (validPropertyOrder po \<and> recognized p \<and> attr p node = []
        \<and> r \<in> set (Rules ss) \<and> matches r node \<and> writes p r
        \<and> (\<forall>entry \<in> set (Properties r). sameAttr p (fst entry) \<longrightarrow> snd entry = v)
        \<and> (\<forall>rule \<in> set (Rules ss). matches rule node \<and> writes p rule
               \<longrightarrow> rule = r \<or> Specificity rule < Specificity r)
        \<longrightarrow> attr p (applyToNode po ss key node) = v)
   \<and> Specificity (selectorRule sel)
        = (if sel = ''*'' then 0 else if HasPrefix sel ''.'' then 2
           else if HasPrefix sel ''#'' then 3 else 1)
   \<and> map_of (Nodes (Apply po ss graph)) key
        = map_option (applyToNode po ss key) (map_of (Nodes graph) key)"
proof -
  let ?matched = "sortBySpecificity (filter (\<lambda>rule. matches rule node) (Rules ss))"
  have srt: "sorted_wrt (\<lambda>a b. Specificity a \<le> Specificity b) ?matched"
    by (rule sortBySpecificity_sorted)
  have st: "set ?matched = {rule \<in> set (Rules ss). matches rule node}"
    by (simp add: sortBySpecificity_set)
  have high: "attr p (applyToNode po ss key node) = v"
    if "validPropertyOrder po" "recognized p" "attr p node = []"
      "r \<in> set (Rules ss)" "matches r node" "writes p r"
      "\<forall>entry \<in> set (Properties r). sameAttr p (fst entry) \<longrightarrow> snd entry = v"
      "\<forall>rule \<in> set (Rules ss). matches rule node \<and> writes p rule
               \<longrightarrow> rule = r \<or> Specificity rule < Specificity r"
  proof -
    have "r \<in> set ?matched" using that(4,5) st by simp
    moreover have "\<forall>rule \<in> set ?matched. writes p rule
        \<longrightarrow> rule = r \<or> Specificity rule < Specificity r"
      using that(8) st by simp
    ultimately have "attr p (applyRules po key 0
                   (node\<lparr>LLMModel := [], LLMProvider := [], ReasoningEffort := []\<rparr>)
                   ?matched) = v"
      using that(1,2,6,7) srt by (intro applyRules_highest) simp_all
    then show ?thesis using that(2,3) by (simp add: applyToNode_attr)
  qed
  have spec: "Specificity (selectorRule sel)
        = (if sel = ''*'' then 0 else if HasPrefix sel ''.'' then 2
           else if HasPrefix sel ''#'' then 3 else 1)"
    by (simp add: selectorRule_def SpecificityUniversal_def SpecificityShape_def
        SpecificityClass_def SpecificityID_def)
  have all: "map_of (Nodes (Apply po ss graph)) key
        = map_option (applyToNode po ss key) (map_of (Nodes graph) key)"
  proof -
    have "map_of (map (\<lambda>(key, node). (key, applyToNode po ss key node)) entries) key
        = map_option (applyToNode po ss key) (map_of entries key)" for entries
      by (induction entries) auto
    then show ?thesis by (simp add: Apply_def)
  qed
  have ex: "(LLMModel node \<noteq> [] \<longrightarrow> LLMModel (applyToNode po ss key node) = LLMModel node)"
    "(LLMProvider node \<noteq> [] \<longrightarrow> LLMProvider (applyToNode po ss key node) = LLMProvider node)"
    "(ReasoningEffort node \<noteq> [] \<longrightarrow>
        ReasoningEffort (applyToNode po ss key node) = ReasoningEffort node)"
    using applyToNode_explicit[of node po ss key] by simp_all
  have high': "validPropertyOrder po \<and> recognized p \<and> attr p node = []
        \<and> r \<in> set (Rules ss) \<and> matches r node \<and> writes p r
        \<and> (\<forall>entry \<in> set (Properties r). sameAttr p (fst entry) \<longrightarrow> snd entry = v)
        \<and> (\<forall>rule \<in> set (Rules ss). matches rule node \<and> writes p rule
               \<longrightarrow> rule = r \<or> Specificity rule < Specificity r)
        \<longrightarrow> attr p (applyToNode po ss key node) = v"
    using high by (intro impI) (elim conjE, assumption)
  show ?thesis
    apply (intro conjI)
           apply (rule ex(1))
          apply (rule ex(2))
         apply (rule ex(3))
        apply (rule srt)
       apply (rule st)
      apply (rule high')
     apply (rule spec)
    apply (rule all)
    done
qed


definition specificNode :: Node where
  "specificNode = (mkNode ''specific'' ''box'')\<lparr>Class := ''code''\<rparr>"

definition explicitNode :: Node where
  "explicitNode = (mkNode ''explicit'' ''box'')\<lparr>LLMModel := ''explicit-model''\<rparr>"

definition idRule :: Rule where
  "idRule = (selectorRule ''#specific'')\<lparr>Properties := [(''llm_model'', ''id-model'')]\<rparr>"

theorem stylesheet_apply_witness:
  "validPropertyOrder storedOrder
   \<and> recognized ''llm_model''
   \<and> attr ''llm_model'' specificNode = []
   \<and> idRule \<in> set (Rules specificitySheet)
   \<and> matches idRule specificNode
   \<and> writes ''llm_model'' idRule
   \<and> LLMModel (applyToNode storedOrder specificitySheet ''specific'' specificNode) = ''id-model''
   \<and> LLMModel explicitNode \<noteq> []
   \<and> LLMModel (applyToNode storedOrder specificitySheet ''explicit'' explicitNode)
       = ''explicit-model''
   \<and> map (\<lambda>(key, node). (key, LLMModel node, LLMProvider node))
        (Nodes (Apply storedOrder specificitySheet specificityGraph))
       = [(''generic'', ''universal'', ''anyone''), (''boxed'', ''shape-model'', ''anyone''),
          (''coder'', ''class-model'', ''anyone''), (''specific'', ''id-model'', ''anyone''),
          (''explicit'', ''explicit-model'', ''anyone'')]"
proof -
  have h2: "recognized ''llm_model''" by (simp add: recognized_def)
  have h3: "attr ''llm_model'' specificNode = []"
    by (simp add: attr_def specificNode_def mkNode_def)
  have h4: "idRule \<in> set (Rules specificitySheet)"
    by (simp add: idRule_def specificitySheet_def)
  have h5: "matches idRule specificNode" by code_simp
  have h6: "writes ''llm_model'' idRule"
    by (simp add: writes_def idRule_def sameAttr_def)
  have h7: "\<forall>entry \<in> set (Properties idRule).
      sameAttr ''llm_model'' (fst entry) \<longrightarrow> snd entry = ''id-model''"
    by (simp add: idRule_def)
  have h8: "\<forall>rule \<in> set (Rules specificitySheet).
      matches rule specificNode \<and> writes ''llm_model'' rule
      \<longrightarrow> rule = idRule \<or> Specificity rule < Specificity idRule"
    by (simp add: specificitySheet_def idRule_def selectorRule_def HasPrefix_def
        SpecificityUniversal_def SpecificityShape_def SpecificityClass_def SpecificityID_def)
  have e1: "LLMModel explicitNode \<noteq> []" by (simp add: explicitNode_def)
  from stylesheet_apply[of specificNode storedOrder specificitySheet "''specific''"
      "''llm_model''" idRule "''id-model''"]
    validPropertyOrder_storedOrder h2 h3 h4 h5 h6 h7 h8
  have c1: "attr ''llm_model'' (applyToNode storedOrder specificitySheet ''specific'' specificNode)
      = ''id-model''" by blast
  from stylesheet_apply[of explicitNode storedOrder specificitySheet "''explicit''"] e1
  have c2: "LLMModel (applyToNode storedOrder specificitySheet ''explicit'' explicitNode)
      = LLMModel explicitNode" by blast
  have c3: "map (\<lambda>(key, node). (key, LLMModel node, LLMProvider node))
        (Nodes (Apply storedOrder specificitySheet specificityGraph))
       = [(''generic'', ''universal'', ''anyone''), (''boxed'', ''shape-model'', ''anyone''),
          (''coder'', ''class-model'', ''anyone''), (''specific'', ''id-model'', ''anyone''),
          (''explicit'', ''explicit-model'', ''anyone'')]"
    by code_simp
  from c1 have c1': "LLMModel (applyToNode storedOrder specificitySheet ''specific'' specificNode)
      = ''id-model''" by (simp add: attr_def)
  from c2 have c2': "LLMModel (applyToNode storedOrder specificitySheet ''explicit'' explicitNode)
      = ''explicit-model''" by (simp add: explicitNode_def)
  from validPropertyOrder_storedOrder h2 h3 h4 h5 h6 c1' e1 c2' c3
  show ?thesis by (intro conjI)
qed


section \<open>LLM client: retry with backoff\<close>

text \<open>
  The errors of the client (\<open>pkg/llm/errors.go\<close>). A Go \<open>error\<close> value met by \<open>Retry\<close> is
  either an \<open>*LLMError\<close> or an error of another type, of which only the message is kept. The
  field \<open>Cause\<close> of an \<open>LLMError\<close> is read by no function modelled here and is left out. A
  \<open>time.Duration\<close> is a number of nanoseconds.
\<close>

type_synonym ErrorType = string



type_synonym Duration = int


record LLMError =
  ErrType :: ErrorType
  Message :: string
  StatusCode :: int
  Provider :: string
  RetryAfter :: Duration

datatype error = IsLLMError LLMError | OtherError string










text \<open>
  A run of \<open>Retry\<close> gives the returned pair, the world it leaves, and the trace of its
  \<open>select\<close> statements: for each one the attempt, the error of the attempt, the world in which
  the delay was computed, and the delay of the timer.
\<close>

type_synonym 'w Pause = "int \<times> error \<times> 'w \<times> Duration"

record 'w Retried =
  response :: "Response option"
  err :: "error option"
  pauses :: "'w Pause list"
  leaves :: "'w"


































end
